theory Spec2Isabelle
  imports Main
begin

section \<open>The irrigation planner: data model\<close>

text \<open>
  A shallow embedding of \<^verbatim>\<open>src/main/irrigationPlanner.cpp\<close>. The planner's header, the
  class \<^verbatim>\<open>IrrigationEvent\<close>, the zone configuration type and the C library are not part
  of the available sources. The capacities and the C library's calendar functions are
  parameters (record \<open>env\<close>); the event class is modelled from the specification, each
  such definition saying so.
\<close>

type_synonym time_t = int

text \<open>
  The value a 32-bit \<^verbatim>\<open>int\<close> holds after an arithmetic result \<open>x\<close>: two's complement
  wrap-around. The fields of \<^verbatim>\<open>struct tm\<close> are such \<^verbatim>\<open>int\<close>s.
\<close>

definition int32 :: "int \<Rightarrow> int" where
  "int32 x = (x + 2147483648) mod 4294967296 - 2147483648"

text \<open>\<^verbatim>\<open>struct tm\<close> of the C library, with the fields the planner reads or writes.\<close>

record tm =
  tm_sec :: int
  tm_min :: int
  tm_hour :: int
  tm_mday :: int
  tm_mon :: int
  tm_year :: int
  tm_wday :: int
  tm_isdst :: int

text \<open>\<^verbatim>\<open>IrrigationPlanner::err_t\<close>, with the members the source and the specification name.\<close>

datatype err_t =
    ERR_OK
  | ERR_INVALID_PARAM
  | ERR_INVALID_HANDLE
  | ERR_INVALID_ZONE_IDX
  | ERR_NO_STOP_SLOT_AVAIL
  | ERR_PARTIAL_EVENT_HANDLES
  | ERR_NO_HANDLES_FOUND
  | ERR_TIMEOUT

text \<open>
  \<^verbatim>\<open>IrrigationEvent::irrigation_event_data_t\<close>: the planner reads \<^verbatim>\<open>zoneIdx\<close>,
  \<^verbatim>\<open>durationSecs\<close> and \<^verbatim>\<open>isStart\<close> of it.
\<close>

record irrigation_event_data_t =
  zoneIdx :: int
  durationSecs :: int
  isStart :: bool

text \<open>
  Modelled from the spec: the recurrence definition of an event (section 3), which is
  either a single absolute date and time (hour, minute, second, day, month, year) or a
  time of day (hour, minute, second) with a set of active weekdays (\<open>tm_wday\<close> values).
\<close>

datatype recurrence_t =
    SingleEvent int int int int int int
  | WeekdayEvent int int int "int set"

text \<open>
  Modelled from the spec: an \<^verbatim>\<open>IrrigationEvent\<close> (section 3) holds its event data, its
  recurrence definition, the cached reference time and the cached next occurrence
  (0: no valid next occurrence).
\<close>

record IrrigationEvent =
  eventData :: irrigation_event_data_t
  recurrence :: recurrence_t
  referenceTime :: time_t
  nextOccurance :: time_t

text \<open>\<^verbatim>\<open>IrrigationPlanner::event_handle_t\<close>: a pool index and the pool it belongs to.\<close>

record event_handle_t =
  idx :: int
  isStart :: bool

text \<open>
  \<^verbatim>\<open>irrigation_zone_cfg_t\<close>: a name and, per channel slot, the enable flag, the channel
  number and the output states at start and at stop.
\<close>

record irrigation_zone_cfg_t =
  name :: string
  chEnabled :: "bool list"
  chNum :: "int list"
  chStateStart :: "bool list"
  chStateStop :: "bool list"

text \<open>
  What the planner takes from outside this file: the compile-time capacities of
  \<^verbatim>\<open>irrigationPlanner.h\<close> and \<^verbatim>\<open>irrigationZoneCfg.h\<close>, and the C library's \<^verbatim>\<open>localtime_r\<close>
  and \<^verbatim>\<open>mktime\<close>, which depend on the configured time zone.
\<close>

record env =
  irrigationPlannerNumZones :: nat
  irrigationPlannerNumEvents :: nat
  irrigationPlannerNumNormalEvents :: nat
  irrigationPlannerNumStopEvents :: nat
  irrigationZoneCfgElements :: nat
  localtime_r :: "time_t \<Rightarrow> tm"
  mktime :: "tm \<Rightarrow> time_t"

text \<open>
  \<^verbatim>\<open>SettingsManager::settings_container_t\<close> (the settings manager's header): the zones and
  the reconfigurable events with their used-flags.
\<close>

record settings_container_t =
  zones :: "irrigation_zone_cfg_t list"
  events :: "IrrigationEvent list"
  eventsUsed :: "bool list"

text \<open>
  What a call leaves behind outside the planner: a call of the settings manager's
  \<^verbatim>\<open>copyZonesAndEvents\<close>, or a call of the registered hook with its parameter.
\<close>

datatype effect = CopyZonesAndEvents | HookCalled nat "nat option"

text \<open>
  The hook is a function pointer with an opaque parameter; both are addresses here,
  \<open>None\<close> being \<^verbatim>\<open>nullptr\<close>. The two FreeRTOS mutexes are flags: \<open>True\<close> when another
  context holds the mutex, so that \<^verbatim>\<open>xSemaphoreTake\<close> times out.
\<close>

record IrrigationPlanner =
  zones :: "irrigation_zone_cfg_t list"
  events :: "IrrigationEvent list"
  eventsUsed :: "bool list"
  stopEvents :: "IrrigationEvent list"
  stopEventsUsed :: "bool list"
  configLock :: bool
  configUpdatedDuringLock :: bool
  configUpdatedHook :: "nat option"
  configUpdatedHookParamPtr :: "nat option"
  configMutex :: bool
  hookMutex :: bool

text \<open>The arrays of a planner have the sizes their declarations give them.\<close>

definition planner_wf :: "env \<Rightarrow> IrrigationPlanner \<Rightarrow> bool" where
  "planner_wf E p \<longleftrightarrow>
     length (zones p) = irrigationPlannerNumZones E \<and>
     length (events p) = irrigationPlannerNumEvents E \<and>
     length (eventsUsed p) = irrigationPlannerNumEvents E \<and>
     length (stopEvents p) = irrigationPlannerNumStopEvents E \<and>
     length (stopEventsUsed p) = irrigationPlannerNumStopEvents E"

section \<open>The recurrence engine of an event\<close>

text \<open>
  Modelled from the spec: \<^verbatim>\<open>getNextOccurance\<close> (section 4.1) returns the cached value
  without recomputation; \<^verbatim>\<open>getReferenceTime\<close> returns the cached reference time.
\<close>

definition getNextOccurance :: "IrrigationEvent \<Rightarrow> time_t" where
  "getNextOccurance e = nextOccurance e"

definition getReferenceTime :: "IrrigationEvent \<Rightarrow> time_t" where
  "getReferenceTime e = referenceTime e"

text \<open>
  Modelled from the spec: the ordering of events (section 4.1), \<^verbatim>\<open>operator<\<close>. Event A is
  less than event B iff A's cached next occurrence is less than B's, with 0 (none)
  treated as plus infinity.
\<close>

definition event_less :: "IrrigationEvent \<Rightarrow> IrrigationEvent \<Rightarrow> bool" where
  "event_less a b \<longleftrightarrow>
     getNextOccurance a \<noteq> 0 \<and>
     (getNextOccurance b = 0 \<or> getNextOccurance a < getNextOccurance b)"

text \<open>
  Modelled from the spec: the absolute time of a single-shot date and time (section 4.1:
  occurrence arithmetic goes through the calendar representation, with the
  daylight-saving flag invalidated before the absolute time is derived).
\<close>

definition singleEventTime :: "env \<Rightarrow> int \<Rightarrow> int \<Rightarrow> int \<Rightarrow> int \<Rightarrow> int \<Rightarrow> int \<Rightarrow> time_t" where
  "singleEventTime E h m s d mon y =
     mktime E \<lparr>tm_sec = s, tm_min = m, tm_hour = h, tm_mday = d, tm_mon = mon - 1,
               tm_year = y - 1900, tm_wday = 0, tm_isdst = - 1\<rparr>"

text \<open>
  Modelled from the spec: the candidates of a weekday recurrence (section 4.1) are the
  given time of day on the day of \<open>now\<close> and on each of the seven days after it; a
  candidate counts when it is at or after \<open>now\<close> and its weekday is active.
\<close>

definition weekdayCandidates :: "env \<Rightarrow> time_t \<Rightarrow> int \<Rightarrow> int \<Rightarrow> int \<Rightarrow> int set \<Rightarrow> time_t list" where
  "weekdayCandidates E now h m s wdays =
     (let base = localtime_r E now
      in filter (\<lambda>c. now \<le> c \<and> tm_wday (localtime_r E c) \<in> wdays)
           (map (\<lambda>k. mktime E (base\<lparr>tm_sec := s, tm_min := m, tm_hour := h,
                                     tm_mday := tm_mday base + int k, tm_isdst := - 1\<rparr>))
                [0..<8]))"

text \<open>
  Modelled from the spec: the next occurrence of a recurrence definition at or after
  \<open>now\<close> (section 4.1). Single-shot: the fixed date and time if it is at or after \<open>now\<close>,
  else 0. Weekday recurrence: the earliest date and time at or after \<open>now\<close> whose weekday
  is active and whose time of day matches.
\<close>

fun computeNextOccurance :: "env \<Rightarrow> recurrence_t \<Rightarrow> time_t \<Rightarrow> time_t" where
  "computeNextOccurance E (SingleEvent h m s d mon y) now =
     (let t = singleEventTime E h m s d mon y in if now \<le> t then t else 0)"
| "computeNextOccurance E (WeekdayEvent h m s wdays) now =
     (let cs = weekdayCandidates E now h m s wdays
      in if cs = [] then 0 else Min (set cs))"

text \<open>
  Modelled from the spec: \<^verbatim>\<open>updateReferenceTime(now)\<close> (section 4.1) recomputes and caches
  the next occurrence at or after \<open>now\<close>, and caches \<open>now\<close> as the reference time.
\<close>

definition updateReferenceTime :: "env \<Rightarrow> time_t \<Rightarrow> IrrigationEvent \<Rightarrow> IrrigationEvent" where
  "updateReferenceTime E now e =
     e\<lparr>referenceTime := now, nextOccurance := computeNextOccurance E (recurrence e) now\<rparr>"

text \<open>
  Modelled from the spec: the setters the planner uses to write a stop event (section
  4.2, \<^verbatim>\<open>confirmEvent\<close>): each stores its arguments in the event.
\<close>

definition setSingleEvent :: "int \<Rightarrow> int \<Rightarrow> int \<Rightarrow> int \<Rightarrow> int \<Rightarrow> int \<Rightarrow> IrrigationEvent \<Rightarrow> IrrigationEvent" where
  "setSingleEvent h m s d mon y e = e\<lparr>recurrence := SingleEvent h m s d mon y\<rparr>"

definition setStartFlag :: "bool \<Rightarrow> IrrigationEvent \<Rightarrow> IrrigationEvent" where
  "setStartFlag b e = e\<lparr>eventData := (eventData e)\<lparr>irrigation_event_data_t.isStart := b\<rparr>\<rparr>"

definition setDuration :: "int \<Rightarrow> IrrigationEvent \<Rightarrow> IrrigationEvent" where
  "setDuration d e = e\<lparr>eventData := (eventData e)\<lparr>durationSecs := d\<rparr>\<rparr>"

definition setZoneIndex :: "int \<Rightarrow> IrrigationEvent \<Rightarrow> IrrigationEvent" where
  "setZoneIndex z e = e\<lparr>eventData := (eventData e)\<lparr>zoneIdx := z\<rparr>\<rparr>"

text \<open>
  Modelled from the spec: \<^verbatim>\<open>IrrigationEvent::getEventData\<close> copies the event's data to the
  destination and, as \<^verbatim>\<open>getEventData\<close> of section 4.2, fails only for a null destination.
  The first argument says whether the destination is non-null; \<open>None\<close> is a status other
  than \<^verbatim>\<open>IrrigationEvent::ERR_OK\<close>.
\<close>

definition event_getEventData :: "bool \<Rightarrow> IrrigationEvent \<Rightarrow> irrigation_event_data_t option" where
  "event_getEventData destNonNull e = (if destNonNull then Some (eventData e) else None)"

section \<open>The next event\<close>

text \<open>
  One iteration of the loop of \<^verbatim>\<open>getNextEventIdx\<close>. The state is the event list, \<^verbatim>\<open>nextIdx\<close>
  and \<^verbatim>\<open>nextEvent\<close>; the pointer \<^verbatim>\<open>nextEvent\<close> is the index of the element it points to,
  \<open>None\<close> being \<^verbatim>\<open>nullptr\<close>, and is dereferenced in the list as it stands.
\<close>

definition getNextEventIdx_step ::
  "env \<Rightarrow> time_t \<Rightarrow> bool list \<Rightarrow> nat \<Rightarrow>
   IrrigationEvent list \<times> int \<times> nat option \<Rightarrow> IrrigationEvent list \<times> int \<times> nat option" where
  "getNextEventIdx_step E startTime eventUsedList i st =
     (case st of (eventList, nextIdx, nextEvent) \<Rightarrow>
        if nextEvent \<noteq> None \<and> eventUsedList ! i then
          (let eventList1 = eventList[i := updateReferenceTime E startTime (eventList ! i)]
           in if getNextOccurance (eventList1 ! i) \<noteq> 0 \<and>
                 event_less (eventList1 ! i) (eventList1 ! the nextEvent)
              then (eventList1, int i, Some i)
              else (eventList1, nextIdx, nextEvent))
        else if eventUsedList ! i then
          (let eventList1 = eventList[i := updateReferenceTime E startTime (eventList ! i)]
           in if getNextOccurance (eventList1 ! i) \<noteq> 0
              then (eventList1, int i, Some i)
              else (eventList1, nextIdx, nextEvent))
        else (eventList, nextIdx, nextEvent))"

text \<open>
  \<^verbatim>\<open>getNextEventIdx\<close>: the loop over \<open>0 .. listElements - 1\<close>; returns the updated list with
  the index.
\<close>

definition getNextEventIdx ::
  "env \<Rightarrow> time_t \<Rightarrow> IrrigationEvent list \<Rightarrow> bool list \<Rightarrow> nat \<Rightarrow> IrrigationEvent list \<times> int" where
  "getNextEventIdx E startTime eventList eventUsedList listElements =
     (case fold (getNextEventIdx_step E startTime eventUsedList) [0..<listElements]
             (eventList, - 1, None) of
        (eventList', nextIdx, nextEvent) \<Rightarrow> (eventList', nextIdx))"

text \<open>
  \<^verbatim>\<open>getNextEventTime\<close>. With \<^verbatim>\<open>excludeStartTime\<close> the start time goes through
  \<^verbatim>\<open>localtime_r\<close>, has its seconds field incremented and comes back through \<^verbatim>\<open>mktime\<close>;
  the daylight-saving flag stays as \<^verbatim>\<open>localtime_r\<close> set it.
\<close>

definition getNextEventTime ::
  "env \<Rightarrow> time_t \<Rightarrow> bool \<Rightarrow> IrrigationPlanner \<Rightarrow> time_t \<times> IrrigationPlanner" where
  "getNextEventTime E startTime excludeStartTime p =
     (let startTime1 =
            (if excludeStartTime then
               (let startTimeTm = localtime_r E startTime
                in mktime E (startTimeTm\<lparr>tm_sec := int32 (tm_sec startTimeTm + 1)\<rparr>))
             else startTime);
          (events1, nextStartEventIdx) =
            getNextEventIdx E startTime1 (events p) (eventsUsed p) (irrigationPlannerNumEvents E);
          (stopEvents1, nextStopEventIdx) =
            getNextEventIdx E startTime1 (stopEvents p) (stopEventsUsed p)
              (irrigationPlannerNumStopEvents E);
          p1 = p\<lparr>events := events1, stopEvents := stopEvents1\<rparr>;
          nextEventTime =
            (if 0 \<le> nextStartEventIdx then
               (if 0 \<le> nextStopEventIdx then
                  (if event_less (events1 ! nat nextStartEventIdx) (stopEvents1 ! nat nextStopEventIdx)
                   then getNextOccurance (events1 ! nat nextStartEventIdx)
                   else getNextOccurance (stopEvents1 ! nat nextStopEventIdx))
                else getNextOccurance (events1 ! nat nextStartEventIdx))
             else
               (if 0 \<le> nextStopEventIdx
                then getNextOccurance (stopEvents1 ! nat nextStopEventIdx)
                else 0))
      in (nextEventTime, p1))"

section \<open>The handles of a time\<close>

text \<open>
  The two scanning loops of \<^verbatim>\<open>getEventHandles\<close> have the same body, apart from the pool
  and the \<^verbatim>\<open>isStart\<close> flag written: the state is \<^verbatim>\<open>ret\<close>, \<^verbatim>\<open>handleCnt\<close> and the
  memory at \<^verbatim>\<open>dest\<close> (by element index); \<^verbatim>\<open>break\<close> ends the scan.
\<close>

fun scanEventHandles ::
  "time_t \<Rightarrow> bool \<Rightarrow> IrrigationEvent list \<Rightarrow> bool list \<Rightarrow> nat \<Rightarrow> nat list \<Rightarrow>
   err_t \<times> nat \<times> (nat \<Rightarrow> event_handle_t) \<Rightarrow> err_t \<times> nat \<times> (nat \<Rightarrow> event_handle_t)" where
  "scanEventHandles eventTime st evs used maxElements [] s = s"
| "scanEventHandles eventTime st evs used maxElements (i # is) (ret, handleCnt, dest) =
     (if used ! i then
        (if getNextOccurance (evs ! i) = eventTime then
           (if handleCnt < maxElements then
              scanEventHandles eventTime st evs used maxElements is
                (ret, Suc handleCnt, dest(handleCnt := (dest handleCnt)\<lparr>idx := int i, isStart := st\<rparr>))
            else (ERR_PARTIAL_EVENT_HANDLES, handleCnt, dest))
         else scanEventHandles eventTime st evs used maxElements is (ret, handleCnt, dest))
      else scanEventHandles eventTime st evs used maxElements is (ret, handleCnt, dest))"

text \<open>The loop that clears the remaining elements: \<^verbatim>\<open>dest[i].idx = -1\<close>.\<close>

definition clearHandles :: "nat \<Rightarrow> nat \<Rightarrow> (nat \<Rightarrow> event_handle_t) \<Rightarrow> (nat \<Rightarrow> event_handle_t)" where
  "clearHandles handleCnt maxElements dest =
     fold (\<lambda>i d. d(i := (d i)\<lparr>idx := - 1\<rparr>)) [handleCnt..<maxElements] dest"

definition getEventHandles ::
  "env \<Rightarrow> time_t \<Rightarrow> (nat \<Rightarrow> event_handle_t) \<Rightarrow> nat \<Rightarrow> IrrigationPlanner \<Rightarrow>
   err_t \<times> (nat \<Rightarrow> event_handle_t)" where
  "getEventHandles E eventTime dest maxElements p =
     (case scanEventHandles eventTime True (IrrigationPlanner.events p)
             (IrrigationPlanner.eventsUsed p) maxElements
             [0..<irrigationPlannerNumEvents E] (ERR_OK, 0, dest) of
        (ret1, handleCnt1, dest1) \<Rightarrow>
     (case scanEventHandles eventTime False (stopEvents p) (stopEventsUsed p) maxElements
             [0..<irrigationPlannerNumStopEvents E] (ret1, handleCnt1, dest1) of
        (ret2, handleCnt2, dest2) \<Rightarrow>
          (if handleCnt2 = 0 then ERR_NO_HANDLES_FOUND else ret2,
           clearHandles handleCnt2 maxElements dest2)))"

section \<open>Event data and confirmation\<close>

text \<open>
  \<^verbatim>\<open>getEventData\<close>: \<open>dest\<close> is \<open>None\<close> for \<^verbatim>\<open>nullptr\<close>, else the content of the pointed-to
  area, which the call returns updated. The status of the event's own
  \<^verbatim>\<open>getEventData\<close> is discarded, as in the source.
\<close>

definition getEventData ::
  "env \<Rightarrow> event_handle_t \<Rightarrow> irrigation_event_data_t option \<Rightarrow> IrrigationPlanner \<Rightarrow>
   err_t \<times> irrigation_event_data_t option" where
  "getEventData E handle dest p =
     (let copy = (\<lambda>e. case event_getEventData (dest \<noteq> None) e of
                         None \<Rightarrow> dest | Some d \<Rightarrow> Some d)
      in if dest = None then (ERR_INVALID_PARAM, dest)
         else if idx handle < 0 then (ERR_INVALID_HANDLE, dest)
         else if isStart handle then
           (if int (irrigationPlannerNumEvents E) \<le> idx handle then (ERR_INVALID_HANDLE, dest)
            else if \<not> IrrigationPlanner.eventsUsed p ! nat (idx handle) then (ERR_INVALID_HANDLE, dest)
            else (ERR_OK, copy (IrrigationPlanner.events p ! nat (idx handle))))
         else
           (if int (irrigationPlannerNumStopEvents E) \<le> idx handle then (ERR_INVALID_HANDLE, dest)
            else if \<not> stopEventsUsed p ! nat (idx handle) then (ERR_INVALID_HANDLE, dest)
            else (ERR_OK, copy (stopEvents p ! nat (idx handle)))))"

text \<open>
  What \<^verbatim>\<open>confirmNormalEvent\<close> does with the first free stop slot \<open>i\<close>: it marks the slot as
  used, then reads the data of the start event \<open>eIdx\<close> (the source's \<^verbatim>\<open>idx\<close>) into its local
  \<^verbatim>\<open>evtData\<close>; only when that succeeds it writes the stop event. The duration is added to
  the 32-bit \<^verbatim>\<open>int\<close> field \<^verbatim>\<open>tm_sec\<close>, which wraps. The result is the value of \<^verbatim>\<open>ret\<close>.
\<close>

definition confirmNormalEvent_slot ::
  "env \<Rightarrow> nat \<Rightarrow> nat \<Rightarrow> IrrigationPlanner \<Rightarrow> bool \<times> IrrigationPlanner" where
  "confirmNormalEvent_slot E eIdx i p =
     (let p1 = p\<lparr>stopEventsUsed := (stopEventsUsed p)[i := True]\<rparr>
      in case event_getEventData True (IrrigationPlanner.events p1 ! eIdx) of
           None \<Rightarrow> (False, p1)
         | Some evtData \<Rightarrow>
             (let stopTime = getNextOccurance (IrrigationPlanner.events p1 ! eIdx);
                  stopTimeTm = localtime_r E stopTime;
                  stopTimeTm1 = stopTimeTm\<lparr>tm_sec := int32 (tm_sec stopTimeTm + durationSecs evtData),
                                          tm_isdst := - 1\<rparr>;
                  stopTime1 = mktime E stopTimeTm1;
                  stopTimeTm2 = localtime_r E stopTime1;
                  ev = updateReferenceTime E (getReferenceTime (IrrigationPlanner.events p1 ! eIdx))
                         (setZoneIndex (zoneIdx evtData)
                           (setDuration 0
                             (setStartFlag False
                               (setSingleEvent (tm_hour stopTimeTm2) (tm_min stopTimeTm2)
                                  (tm_sec stopTimeTm2) (tm_mday stopTimeTm2)
                                  (tm_mon stopTimeTm2 + 1) (tm_year stopTimeTm2 + 1900)
                                  (stopEvents p1 ! i)))))
              in (True, p1\<lparr>stopEvents := (stopEvents p1)[i := ev]\<rparr>)))"

text \<open>The loop of \<^verbatim>\<open>confirmNormalEvent\<close> over the stop slots; it ends at the first free one.\<close>

fun confirmNormalEvent_loop ::
  "env \<Rightarrow> nat \<Rightarrow> nat list \<Rightarrow> IrrigationPlanner \<Rightarrow> bool \<times> IrrigationPlanner" where
  "confirmNormalEvent_loop E eIdx [] p = (False, p)"
| "confirmNormalEvent_loop E eIdx (i # is) p =
     (if \<not> stopEventsUsed p ! i then confirmNormalEvent_slot E eIdx i p
      else confirmNormalEvent_loop E eIdx is p)"

definition confirmNormalEvent :: "env \<Rightarrow> nat \<Rightarrow> IrrigationPlanner \<Rightarrow> bool \<times> IrrigationPlanner" where
  "confirmNormalEvent E eIdx p =
     (case confirmNormalEvent_loop E eIdx [0..<irrigationPlannerNumStopEvents E] p of
        (ret, p1) \<Rightarrow>
          (ret, if irrigationPlannerNumNormalEvents E \<le> eIdx
                then p1\<lparr>IrrigationPlanner.eventsUsed := (IrrigationPlanner.eventsUsed p1)[eIdx := False]\<rparr>
                else p1))"

definition confirmStopEvent :: "nat \<Rightarrow> IrrigationPlanner \<Rightarrow> IrrigationPlanner" where
  "confirmStopEvent eIdx p = p\<lparr>stopEventsUsed := (stopEventsUsed p)[eIdx := False]\<rparr>"

definition confirmEvent :: "env \<Rightarrow> event_handle_t \<Rightarrow> IrrigationPlanner \<Rightarrow> err_t \<times> IrrigationPlanner" where
  "confirmEvent E handle p =
     (if idx handle < 0 then (ERR_INVALID_HANDLE, p)
      else if isStart handle then
        (if int (irrigationPlannerNumEvents E) \<le> idx handle then (ERR_INVALID_HANDLE, p)
         else if \<not> IrrigationPlanner.eventsUsed p ! nat (idx handle) then (ERR_INVALID_HANDLE, p)
         else (case confirmNormalEvent E (nat (idx handle)) p of
                 (ok, p1) \<Rightarrow> (if \<not> ok then ERR_NO_STOP_SLOT_AVAIL else ERR_OK, p1)))
      else
        (if int (irrigationPlannerNumStopEvents E) \<le> idx handle then (ERR_INVALID_HANDLE, p)
         else if \<not> stopEventsUsed p ! nat (idx handle) then (ERR_INVALID_HANDLE, p)
         else (ERR_OK, confirmStopEvent (nat (idx handle)) p)))"

section \<open>Zones and the configuration reload\<close>

text \<open>
  \<^verbatim>\<open>getZoneConfig\<close> returns the status with the content of \<^verbatim>\<open>*cfg\<close>. The index (\<open>zIdx\<close>,
  the source's \<^verbatim>\<open>idx\<close>) is checked
  against \<^verbatim>\<open>irrigationZoneCfgElements\<close>; \<open>None\<close> is the read of \<^verbatim>\<open>zones[idx]\<close> past the end
  of the array, which C++ leaves undefined.
\<close>

definition getZoneConfig ::
  "env \<Rightarrow> int \<Rightarrow> irrigation_zone_cfg_t \<Rightarrow> IrrigationPlanner \<Rightarrow> (err_t \<times> irrigation_zone_cfg_t) option" where
  "getZoneConfig E zIdx cfg p =
     (if zIdx < 0 \<or> int (irrigationZoneCfgElements E) \<le> zIdx then Some (ERR_INVALID_ZONE_IDX, cfg)
      else if nat zIdx < length (IrrigationPlanner.zones p)
           then Some (ERR_OK, IrrigationPlanner.zones p ! nat zIdx)
           else None)"

text \<open>
  Modelled from the spec: \<^verbatim>\<open>SettingsManager::copyZonesAndEvents\<close> (section 6; only its
  declaration is in the sources) copies the zones and the reconfigurable start events,
  which occupy the first \<^verbatim>\<open>irrigationPlannerNumNormalEvents\<close> slots, into the live arrays.
\<close>

definition copyZonesAndEvents :: "env \<Rightarrow> settings_container_t \<Rightarrow> IrrigationPlanner \<Rightarrow> IrrigationPlanner" where
  "copyZonesAndEvents E shadowData p =
     (let n = irrigationPlannerNumNormalEvents E
      in p\<lparr>IrrigationPlanner.zones := settings_container_t.zones shadowData,
            IrrigationPlanner.events :=
              take n (settings_container_t.events shadowData) @ drop n (IrrigationPlanner.events p),
            IrrigationPlanner.eventsUsed :=
              take n (settings_container_t.eventsUsed shadowData) @
              drop n (IrrigationPlanner.eventsUsed p)\<rparr>)"

text \<open>
  \<^verbatim>\<open>printAllEvents\<close> logs, and before it updates the reference time of every used start
  event to the current time \<open>now\<close> (\<^verbatim>\<open>time(NULL)\<close>).
\<close>

definition printAllEvents :: "env \<Rightarrow> time_t \<Rightarrow> IrrigationPlanner \<Rightarrow> IrrigationPlanner" where
  "printAllEvents E now p =
     p\<lparr>IrrigationPlanner.events :=
         fold (\<lambda>i evs. if IrrigationPlanner.eventsUsed p ! i
                        then evs[i := updateReferenceTime E now (evs ! i)] else evs)
              [0..<irrigationPlannerNumEvents E] (IrrigationPlanner.events p)\<rparr>"

text \<open>
  \<^verbatim>\<open>irrigConfigUpdated\<close>, with \<^verbatim>\<open>IRRIGATION_PLANNER_PRINT_ALL_EVENTS\<close> defined as in the
  source. \<^verbatim>\<open>xSemaphoreTake\<close> fails when the mutex is taken. The hook is outside the
  planner: its call is recorded, with the call of \<^verbatim>\<open>copyZonesAndEvents\<close>, in the effects.
\<close>

definition irrigConfigUpdated ::
  "env \<Rightarrow> settings_container_t \<Rightarrow> time_t \<Rightarrow> IrrigationPlanner \<Rightarrow> IrrigationPlanner \<times> effect list" where
  "irrigConfigUpdated E shadowData now p =
     (if configLock p then (p\<lparr>configUpdatedDuringLock := True\<rparr>, [])
      else if configMutex p then (p, [])
      else
        (let p1 = p\<lparr>configMutex := True\<rparr>;
             p2 = printAllEvents E now (copyZonesAndEvents E shadowData p1);
             (p3, called) =
               (if hookMutex p2 then (p2, [])
                else
                  (let p2a = p2\<lparr>hookMutex := True\<rparr>;
                       called = (case configUpdatedHook p2a of
                                   None \<Rightarrow> []
                                 | Some hook \<Rightarrow> [HookCalled hook (configUpdatedHookParamPtr p2a)])
                   in (p2a\<lparr>hookMutex := False\<rparr>, called)))
         in (p3\<lparr>configMutex := False\<rparr>, CopyZonesAndEvents # called)))"

definition setConfigLock ::
  "env \<Rightarrow> settings_container_t \<Rightarrow> time_t \<Rightarrow> bool \<Rightarrow> IrrigationPlanner \<Rightarrow>
   IrrigationPlanner \<times> effect list" where
  "setConfigLock E shadowData now lockState p =
     (let p1 = p\<lparr>configLock := lockState\<rparr>
      in if lockState = False \<and> configUpdatedDuringLock p1 = True
         then irrigConfigUpdated E shadowData now (p1\<lparr>configUpdatedDuringLock := False\<rparr>)
         else (p1, []))"

definition getConfigLock :: "IrrigationPlanner \<Rightarrow> bool" where
  "getConfigLock p = configLock p"

definition registerIrrigPlanUpdatedHook ::
  "nat option \<Rightarrow> nat option \<Rightarrow> IrrigationPlanner \<Rightarrow> err_t \<times> IrrigationPlanner" where
  "registerIrrigPlanUpdatedHook hook param p =
     (if hookMutex p then (ERR_TIMEOUT, p)
      else
        (let p1 = p\<lparr>hookMutex := True\<rparr>;
             p2 = p1\<lparr>configUpdatedHook := hook, configUpdatedHookParamPtr := param\<rparr>
         in (ERR_OK, p2\<lparr>hookMutex := False\<rparr>)))"

section \<open>A C library and a planner to evaluate with\<close>

text \<open>
  The conversions between a day count from 1970-01-01 and a date of the proleptic
  Gregorian calendar, with years that begin in March. \<open>days_from_civil\<close> is linear in the
  day of the month, so a day out of range carries over, as \<^verbatim>\<open>mktime\<close> normalises it.
  \<open>civil_from_days\<close> peels off the 400-year eras, then centuries, 4-year cycles and years.
\<close>

definition days_from_civil :: "int \<Rightarrow> int \<Rightarrow> int \<Rightarrow> int" where
  "days_from_civil y m d =
     (let y1 = (if m \<le> 2 then y - 1 else y);
          era = y1 div 400;
          yoe = y1 - era * 400;
          doy = (153 * (if 2 < m then m - 3 else m + 9) + 2) div 5 + d - 1;
          doe = yoe * 365 + yoe div 4 - yoe div 100 + doy
      in era * 146097 + doe - 719468)"

definition civil_from_days :: "int \<Rightarrow> int \<times> int \<times> int" where
  "civil_from_days z =
     (let z1 = z + 719468;
          era = z1 div 146097;
          doe = z1 mod 146097;
          n100 = min 3 (doe div 36524);
          d2 = doe - n100 * 36524;
          n4 = d2 div 1461;
          d3 = d2 mod 1461;
          n1 = min 3 (d3 div 365);
          doy = d3 - n1 * 365;
          yoe = n100 * 100 + n4 * 4 + n1;
          mp = (5 * doy + 2) div 153;
          d = doy - (153 * mp + 2) div 5 + 1;
          m = (if mp < 10 then mp + 3 else mp - 9);
          y = yoe + era * 400
      in (if m \<le> 2 then y + 1 else y, m, d))"

text \<open>
  A time zone: the offsets from UTC in seconds of standard and of daylight-saving time,
  and the instants at which daylight saving is in force.
\<close>

record timezone =
  std_offset :: int
  dst_offset :: int
  is_dst :: "time_t \<Rightarrow> bool"

text \<open>The calendar fields of a count of local seconds, with the given daylight-saving flag.\<close>

definition broken_down :: "int \<Rightarrow> int \<Rightarrow> tm" where
  "broken_down l dst =
     (let days = l div 86400; secs = l mod 86400
      in case civil_from_days days of (y, m, d) \<Rightarrow>
           \<lparr>tm_sec = secs mod 60, tm_min = (secs div 60) mod 60, tm_hour = secs div 3600,
            tm_mday = d, tm_mon = m - 1, tm_year = y - 1900,
            tm_wday = (days + 4) mod 7, tm_isdst = dst\<rparr>)"

text \<open>
  \<^verbatim>\<open>localtime_r\<close> in a time zone: the offset in force at the instant is added, and the
  flag says which one it was.
\<close>

definition tz_localtime_r :: "timezone \<Rightarrow> time_t \<Rightarrow> tm" where
  "tz_localtime_r z t =
     (if is_dst z t then broken_down (t + dst_offset z) 1 else broken_down (t + std_offset z) 0)"

text \<open>The count of local seconds that calendar fields stand for, fields out of range carried over.\<close>

definition wall_clock :: "tm \<Rightarrow> int" where
  "wall_clock b =
     (let y = tm_year b + 1900 + tm_mon b div 12; m = tm_mon b mod 12 + 1
      in days_from_civil y m (tm_mday b) * 86400 + tm_hour b * 3600 + tm_min b * 60 + tm_sec b)"

text \<open>
  \<^verbatim>\<open>mktime\<close> in a time zone, after ISO C 7.27.2.3. A positive or zero \<^verbatim>\<open>tm_isdst\<close> makes
  \<^verbatim>\<open>mktime\<close> presume that daylight-saving time is, or is not, in effect: the fields are
  taken in that offset. A negative one leaves the decision to \<^verbatim>\<open>mktime\<close>, and the standard
  leaves open how it decides. Here, as in the GNU C library, the seconds are first cut to
  the range of a minute, the resulting local time is daylight-saving time if an instant
  of daylight saving has it, else standard time, and the seconds cut off are added as
  elapsed time.
\<close>

definition tz_mktime :: "timezone \<Rightarrow> tm \<Rightarrow> time_t" where
  "tz_mktime z b =
     (if 0 < tm_isdst b then wall_clock b - dst_offset z
      else if tm_isdst b = 0 then wall_clock b - std_offset z
      else
        (let sec = min 59 (max 0 (tm_sec b));
             l = wall_clock (b\<lparr>tm_sec := sec\<rparr>);
             t = (if is_dst z (l - dst_offset z) then l - dst_offset z else l - std_offset z)
         in t + (tm_sec b - sec)))"

text \<open>
  Central European time in 2024: one hour east of UTC, two hours from
  2024-03-31 01:00:00 UTC to 2024-10-27 01:00:00 UTC.
\<close>

definition cet :: timezone where
  "cet = \<lparr>std_offset = 3600, dst_offset = 7200,
          is_dst = (\<lambda>t. 1711846800 \<le> t \<and> t < 1729990800)\<rparr>"

text \<open>
  An environment: three zones of two channel slots each, three start events of which the
  first two are reconfigurable, two stop events, and the C library in central European
  time.
\<close>

definition example_env :: env where
  "example_env =
     \<lparr>irrigationPlannerNumZones = 3, irrigationPlannerNumEvents = 3,
      irrigationPlannerNumNormalEvents = 2, irrigationPlannerNumStopEvents = 2,
      irrigationZoneCfgElements = 2,
      localtime_r = tz_localtime_r cet, mktime = tz_mktime cet\<rparr>"

definition example_zone :: "string \<Rightarrow> irrigation_zone_cfg_t" where
  "example_zone n =
     \<lparr>name = n, chEnabled = [True, False], chNum = [1, 0],
      chStateStart = [True, False], chStateStop = [False, False]\<rparr>"

text \<open>
  A recurring start event (Tuesday and Thursday 06:00:00, 300 s, zone 0), a one-shot start
  event (2024-03-31 00:30:00, 10800 s, zone 1; its cached occurrence is that time,
  1711841400, computed for the reference time 1711800000) and an event nobody has written.
\<close>

definition weekly_event :: IrrigationEvent where
  "weekly_event =
     \<lparr>eventData = \<lparr>zoneIdx = 0, durationSecs = 300, irrigation_event_data_t.isStart = True\<rparr>,
      recurrence = WeekdayEvent 6 0 0 {2, 4}, referenceTime = 0, nextOccurance = 0\<rparr>"

definition single_event :: IrrigationEvent where
  "single_event =
     \<lparr>eventData = \<lparr>zoneIdx = 1, durationSecs = 10800, irrigation_event_data_t.isStart = True\<rparr>,
      recurrence = SingleEvent 0 30 0 31 3 2024, referenceTime = 1711800000,
      nextOccurance = 1711841400\<rparr>"

definition blank_event :: IrrigationEvent where
  "blank_event =
     \<lparr>eventData = \<lparr>zoneIdx = 0, durationSecs = 0, irrigation_event_data_t.isStart = False\<rparr>,
      recurrence = SingleEvent 0 0 0 0 0 0, referenceTime = 0, nextOccurance = 0\<rparr>"

definition example_planner :: IrrigationPlanner where
  "example_planner =
     \<lparr>zones = [example_zone ''lawn'', example_zone ''beds'', example_zone ''hedge''],
      events = [weekly_event, blank_event, single_event],
      eventsUsed = [True, False, True],
      stopEvents = [blank_event, blank_event],
      stopEventsUsed = [False, False],
      configLock = False, configUpdatedDuringLock = False,
      configUpdatedHook = Some 1, configUpdatedHookParamPtr = Some 2,
      configMutex = False, hookMutex = False\<rparr>"

definition example_settings :: settings_container_t where
  "example_settings =
     \<lparr>settings_container_t.zones =
        [example_zone ''lawn'', example_zone ''roses'', example_zone ''hedge''],
      settings_container_t.events = [weekly_event, weekly_event],
      settings_container_t.eventsUsed = [True, True]\<rparr>"



text \<open>The planner with every stop slot in use.\<close>

definition full_planner :: IrrigationPlanner where
  "full_planner = example_planner\<lparr>stopEventsUsed := [True, True]\<rparr>"

text \<open>
  A planner in which the start events 0 and 2 and the stop event 0 are all due at
  1711841400, and a destination buffer with stale content.
\<close>

definition busy_planner :: IrrigationPlanner where
  "busy_planner =
     example_planner
       \<lparr>IrrigationPlanner.events := [single_event, blank_event, single_event],
        stopEvents := [blank_event\<lparr>recurrence := SingleEvent 0 30 0 31 3 2024,
                                   nextOccurance := 1711841400\<rparr>, blank_event],
        stopEventsUsed := [True, False]\<rparr>"

definition stale_dest :: "nat \<Rightarrow> event_handle_t" where
  "stale_dest k = \<lparr>idx = 7, isStart = True\<rparr>"



text \<open>
  A planner whose one-shot start event is due at 2024-10-27 01:30:00 daylight-saving time
  (1729985400) and runs \<open>d\<close> seconds. One hour later, at 1729989000, the local time is
  02:30:00 daylight-saving time; two hours later, at 1729992600, the clocks have been set
  back and the local time is 02:30:00 again, in standard time.
\<close>

definition late_event :: "int \<Rightarrow> IrrigationEvent" where
  "late_event d =
     \<lparr>eventData = \<lparr>zoneIdx = 1, durationSecs = d, irrigation_event_data_t.isStart = True\<rparr>,
      recurrence = SingleEvent 1 30 0 27 10 2024, referenceTime = 1729900000,
      nextOccurance = 1729985400\<rparr>"

definition late_planner :: "int \<Rightarrow> IrrigationPlanner" where
  "late_planner d =
     example_planner\<lparr>IrrigationPlanner.events := [weekly_event, blank_event, late_event d]\<rparr>"

section \<open>Notions of the specification\<close>

text \<open>
  A pool after \<^verbatim>\<open>updateReferenceTime(t)\<close> has been applied to every used slot, and the
  cached next occurrences of its live slots that are valid (not 0).
\<close>

definition refreshEvents :: "env \<Rightarrow> time_t \<Rightarrow> IrrigationEvent list \<Rightarrow> bool list \<Rightarrow> IrrigationEvent list" where
  "refreshEvents E t evs used =
     map (\<lambda>(e, u). if u then updateReferenceTime E t e else e) (zip evs used)"

definition liveOccurances :: "IrrigationEvent list \<Rightarrow> bool list \<Rightarrow> time_t list" where
  "liveOccurances evs used =
     filter (\<lambda>t. t \<noteq> 0) (map (\<lambda>(e, u). getNextOccurance e) (filter snd (zip evs used)))"

text \<open>
  The slots of a pool, among the given indices, that are live and whose cached next
  occurrence is the given time; and the handles of all such slots of a planner in
  pool-scan order: the start pool by ascending index, then the stop pool.
\<close>

definition matchingSlots :: "time_t \<Rightarrow> IrrigationEvent list \<Rightarrow> bool list \<Rightarrow> nat list \<Rightarrow> nat list" where
  "matchingSlots eventTime evs used is =
     filter (\<lambda>i. used ! i \<and> getNextOccurance (evs ! i) = eventTime) is"

definition matchingHandles :: "env \<Rightarrow> time_t \<Rightarrow> IrrigationPlanner \<Rightarrow> event_handle_t list" where
  "matchingHandles E eventTime p =
     map (\<lambda>i. \<lparr>idx = int i, isStart = True\<rparr>)
       (matchingSlots eventTime (IrrigationPlanner.events p) (IrrigationPlanner.eventsUsed p)
          [0..<irrigationPlannerNumEvents E]) @
     map (\<lambda>i. \<lparr>idx = int i, isStart = False\<rparr>)
       (matchingSlots eventTime (stopEvents p) (stopEventsUsed p)
          [0..<irrigationPlannerNumStopEvents E])"

text \<open>
  The calls of the configuration reload path, run in sequence with their effects
  collected; and the effects that are hook calls.
\<close>

datatype reload_call = Notify settings_container_t time_t | SetLock settings_container_t time_t bool

fun runReloadCalls :: "env \<Rightarrow> reload_call list \<Rightarrow> IrrigationPlanner \<Rightarrow> IrrigationPlanner \<times> effect list" where
  "runReloadCalls E [] p = (p, [])"
| "runReloadCalls E (Notify sd now # cs) p =
     (case irrigConfigUpdated E sd now p of
        (p1, effs) \<Rightarrow> (case runReloadCalls E cs p1 of (p2, effs') \<Rightarrow> (p2, effs @ effs')))"
| "runReloadCalls E (SetLock sd now b # cs) p =
     (case setConfigLock E sd now b p of
        (p1, effs) \<Rightarrow> (case runReloadCalls E cs p1 of (p2, effs') \<Rightarrow> (p2, effs @ effs')))"

definition isHookCall :: "effect \<Rightarrow> bool" where
  "isHookCall e = (case e of HookCalled h a \<Rightarrow> True | CopyZonesAndEvents \<Rightarrow> False)"

text \<open>
  The state of the loop of \<^verbatim>\<open>getNextEventIdx\<close> after the slots below \<open>n\<close>: the used ones
  among them have been updated, and \<^verbatim>\<open>nextEvent\<close> points to the first slot with the least
  valid occurrence among them, if there is one.
\<close>

definition idx_inv ::
  "env \<Rightarrow> time_t \<Rightarrow> IrrigationEvent list \<Rightarrow> bool list \<Rightarrow> nat \<Rightarrow>
   IrrigationEvent list \<times> int \<times> nat option \<Rightarrow> bool" where
  "idx_inv E t evs used n st \<longleftrightarrow>
     (case st of (evs', nextIdx, nextEvent) \<Rightarrow>
        length evs' = length evs \<and>
        (\<forall>j < length evs. evs' ! j = (if j < n \<and> used ! j then updateReferenceTime E t (evs ! j) else evs ! j)) \<and>
        (case nextEvent of
           None \<Rightarrow> nextIdx = - 1 \<and> (\<forall>j < n. used ! j \<longrightarrow> getNextOccurance (evs' ! j) = 0)
         | Some k \<Rightarrow> nextIdx = int k \<and> k < n \<and> used ! k \<and> getNextOccurance (evs' ! k) \<noteq> 0 \<and>
             (\<forall>j < n. used ! j \<and> getNextOccurance (evs' ! j) \<noteq> 0 \<longrightarrow>
                  getNextOccurance (evs' ! k) \<le> getNextOccurance (evs' ! j))))"

text \<open>
  A valid event definition: the cached next occurrence is the one its recurrence has at
  its reference time. A valid stop event is, besides, a single-shot, non-start event of
  duration zero.
\<close>

definition eventCoherent :: "env \<Rightarrow> IrrigationEvent \<Rightarrow> bool" where
  "eventCoherent E e \<longleftrightarrow>
     nextOccurance e = computeNextOccurance E (recurrence e) (referenceTime e)"

definition isSingleEvent :: "recurrence_t \<Rightarrow> bool" where
  "isSingleEvent r = (case r of SingleEvent h m s d mon y \<Rightarrow> True | WeekdayEvent h m s w \<Rightarrow> False)"

definition stopEventValid :: "env \<Rightarrow> IrrigationEvent \<Rightarrow> bool" where
  "stopEventValid E e \<longleftrightarrow>
     \<not> irrigation_event_data_t.isStart (eventData e) \<and> durationSecs (eventData e) = 0 \<and>
     isSingleEvent (recurrence e) \<and> eventCoherent E e"

text \<open>
  The invariant of the planner: the pools have their sizes, every used start slot holds
  a valid event definition and every used stop slot a valid stop event.
\<close>

definition planner_inv :: "env \<Rightarrow> IrrigationPlanner \<Rightarrow> bool" where
  "planner_inv E p \<longleftrightarrow>
     planner_wf E p \<and>
     (\<forall>i < irrigationPlannerNumEvents E.
         IrrigationPlanner.eventsUsed p ! i \<longrightarrow> eventCoherent E (IrrigationPlanner.events p ! i)) \<and>
     (\<forall>i < irrigationPlannerNumStopEvents E.
         stopEventsUsed p ! i \<longrightarrow> stopEventValid E (stopEvents p ! i))"





section \<open>The calendar of the library model\<close>

text \<open>
  The date of a day count is the date whose day count it is, so the calendar fields of a
  count of local seconds stand for that count.
\<close>

lemma civil_from_days_parts:
  fixes doe :: int
  assumes doe: "0 \<le> doe" "doe < 146097"
    and n100_def: "n100 = min 3 (doe div 36524)"
    and d2_def: "d2 = doe - n100 * 36524"
    and n4_def: "n4 = d2 div 1461"
    and d3_def: "d3 = d2 mod 1461"
    and n1_def: "n1 = min 3 (d3 div 365)"
    and doy_def: "doy = d3 - n1 * 365"
    and yoe_def: "yoe = n100 * 100 + n4 * 4 + n1"
  shows "0 \<le> doy \<and> doy \<le> 365 \<and> 0 \<le> yoe \<and> yoe \<le> 399 \<and>
         yoe * 365 + yoe div 4 - yoe div 100 + doy = doe"
proof -
  have n100: "0 \<le> n100" "n100 \<le> 3" using doe by (simp_all add: n100_def)
  have d2: "0 \<le> d2" "d2 \<le> 36524"
    using doe unfolding d2_def n100_def by (auto simp: min_def) 
  have n4: "0 \<le> n4" "n4 \<le> 24" using d2 by (simp_all add: n4_def)
  have d3: "0 \<le> d3" "d3 < 1461" by (simp_all add: d3_def)
  have d2eq: "d2 = n4 * 1461 + d3" by (simp add: n4_def d3_def)
  have n1: "0 \<le> n1" "n1 \<le> 3" using d3 by (simp_all add: n1_def)
  have doy: "0 \<le> doy" "doy \<le> 365"
    using d3 unfolding doy_def n1_def by (auto simp: min_def)
  have y4: "yoe div 4 = n100 * 25 + n4" using n1 unfolding yoe_def by simp
  have y100: "yoe div 100 = n100" using n1 n4 unfolding yoe_def by simp
  have "yoe * 365 + yoe div 4 - yoe div 100 + doy = n100 * 36524 + n4 * 1461 + n1 * 365 + doy"
    unfolding y4 y100 by (simp add: yoe_def algebra_simps)
  also have "\<dots> = doe" using d2eq by (simp add: doy_def d2_def)
  finally have e: "yoe * 365 + yoe div 4 - yoe div 100 + doy = doe" .
  have y: "0 \<le> yoe" "yoe \<le> 399" using n100 n4 n1 by (simp_all add: yoe_def)
  with doy e show ?thesis by simp
qed

lemma days_from_civil_inverse:
  "(case civil_from_days z of (y, m, d) \<Rightarrow>
      days_from_civil y m d = z \<and> 1 \<le> m \<and> m \<le> 12)"
proof -
  define z1 where "z1 = z + 719468"
  define era where "era = z1 div 146097"
  define doe where "doe = z1 mod 146097"
  define n100 where "n100 = min 3 (doe div 36524)"
  define d2 where "d2 = doe - n100 * 36524"
  define n4 where "n4 = d2 div 1461"
  define d3 where "d3 = d2 mod 1461"
  define n1 where "n1 = min 3 (d3 div 365)"
  define doy where "doy = d3 - n1 * 365"
  define yoe where "yoe = n100 * 100 + n4 * 4 + n1"
  define mp where "mp = (5 * doy + 2) div 153"
  define d where "d = doy - (153 * mp + 2) div 5 + 1"
  define m where "m = (if mp < 10 then mp + 3 else mp - 9)"
  define y where "y = yoe + era * 400"
  have c: "civil_from_days z = (if m \<le> 2 then y + 1 else y, m, d)"
    unfolding civil_from_days_def Let_def
      z1_def era_def doe_def n100_def d2_def n4_def d3_def n1_def doy_def yoe_def mp_def d_def
      m_def y_def ..
  have r: "0 \<le> doe" "doe < 146097" by (simp_all add: doe_def)
  from civil_from_days_parts [OF r n100_def d2_def n4_def d3_def n1_def doy_def yoe_def]
  have doy: "0 \<le> doy" "doy \<le> 365" and yoe: "0 \<le> yoe" "yoe \<le> 399"
    and e: "yoe * 365 + yoe div 4 - yoe div 100 + doy = doe"
    by blast+
  have z: "era * 146097 + doe = z1" by (simp add: era_def doe_def)
  have mp: "0 \<le> mp" "mp \<le> 11" using doy by (simp_all add: mp_def)
  have m: "1 \<le> m" "m \<le> 12" using mp by (auto simp: m_def)
  have mi: "(if 2 < m then m - 3 else m + 9) = mp" using mp by (auto simp: m_def)
  have y1: "(if m \<le> 2 then (if m \<le> 2 then y + 1 else y) - 1 else (if m \<le> 2 then y + 1 else y)) = y"
    by simp
  have ye: "y div 400 = era" using yoe by (simp add: y_def)
  have yo: "y - era * 400 = yoe" by (simp add: y_def)
  have dd: "(153 * mp + 2) div 5 + d - 1 = doy" by (simp add: d_def)
  have "days_from_civil (if m \<le> 2 then y + 1 else y) m d = era * 146097 + doe - 719468"
    unfolding days_from_civil_def Let_def y1 mi ye yo dd e ..
  also have "\<dots> = z" using z by (simp add: z1_def)
  finally show ?thesis using m by (simp add: c)
qed

lemma wall_clock_broken_down: "wall_clock (broken_down l f) = l"
proof -
  obtain y m d where c: "civil_from_days (l div 86400) = (y, m, d)"
    by (cases "civil_from_days (l div 86400)") auto
  with days_from_civil_inverse [of "l div 86400"]
  have i: "days_from_civil y m d = l div 86400" and m: "1 \<le> m" "m \<le> 12" by auto
  have m1: "(m - 1) div 12 = 0" "(m - 1) mod 12 + 1 = m" using m by auto
  define secs where "secs = l mod 86400"
  have t: "secs div 3600 * 3600 + secs div 60 mod 60 * 60 + secs mod 60 = secs"
  proof -
    define q where "q = secs div 60"
    define a where "a = q div 60"
    define r1 where "r1 = q mod 60"
    define r2 where "r2 = secs mod 60"
    have h: "secs div 3600 = a"
      using zdiv_zmult2_eq [of 60 secs 60] by (simp add: a_def q_def)
    have "q = a * 60 + r1" by (simp add: a_def r1_def)
    moreover have "secs = q * 60 + r2" by (simp add: q_def r2_def)
    ultimately have "a * 3600 + r1 * 60 + r2 = secs" by simp
    then show ?thesis unfolding h r1_def r2_def q_def .
  qed
  have "wall_clock (broken_down l f) =
      l div 86400 * 86400 + (secs div 3600 * 3600 + secs div 60 mod 60 * 60 + secs mod 60)"
    by (simp add: wall_clock_def broken_down_def c Let_def m1 i secs_def)
  also have "\<dots> = l div 86400 * 86400 + secs" by (simp only: t)
  also have "\<dots> = l" by (simp add: secs_def)
  finally show ?thesis .
qed

lemma broken_down_fields:
  "0 \<le> tm_sec (broken_down l f) \<and> tm_sec (broken_down l f) \<le> 59 \<and> tm_isdst (broken_down l f) = f"
proof -
  have "l mod 86400 mod 60 < 60" by simp
  then have "l mod 86400 mod 60 \<le> 59" by linarith
  then show ?thesis by (simp add: broken_down_def Let_def split: prod.splits)
qed

lemma wall_clock_sec: "wall_clock (b\<lparr>tm_sec := s\<rparr>) = wall_clock b - tm_sec b + s"
  by (simp add: wall_clock_def Let_def)

lemma int32_small: "- 2147483648 \<le> x \<Longrightarrow> x < 2147483648 \<Longrightarrow> int32 x = x"
  by (simp add: int32_def)

text \<open>
  In every time zone, the round trip of an instant through \<^verbatim>\<open>localtime_r\<close>, one second
  added to the seconds field, and \<^verbatim>\<open>mktime\<close> is the next instant: the flag that
  \<^verbatim>\<open>localtime_r\<close> set names the offset that was added.
\<close>

lemma tz_round_trip_second:
  "tz_mktime z ((tz_localtime_r z t)\<lparr>tm_sec := int32 (tm_sec (tz_localtime_r z t) + 1)\<rparr>) = t + 1"
proof -
  define f :: int where "f = (if is_dst z t then 1 else 0)"
  define l where "l = t + (if is_dst z t then dst_offset z else std_offset z)"
  have b: "tz_localtime_r z t = broken_down l f"
    by (simp add: tz_localtime_r_def l_def f_def)
  from broken_down_fields [of l f]
  have s: "0 \<le> tm_sec (broken_down l f)" "tm_sec (broken_down l f) \<le> 59"
    and d: "tm_isdst (broken_down l f) = f" by simp_all
  have i: "int32 (tm_sec (broken_down l f) + 1) = tm_sec (broken_down l f) + 1"
    using s by (intro int32_small) simp_all
  have w: "wall_clock ((broken_down l f)\<lparr>tm_sec := tm_sec (broken_down l f) + 1\<rparr>) = l + 1"
    by (simp add: wall_clock_sec wall_clock_broken_down)
  show ?thesis
  proof (cases "is_dst z t")
    case True
    then show ?thesis unfolding b i using w d by (simp add: tz_mktime_def f_def l_def)
  next
    case False
    then show ?thesis unfolding b i using w d by (simp add: tz_mktime_def f_def l_def)
  qed
qed

text \<open>
  With the flag invalidated, \<^verbatim>\<open>mktime\<close> of the local time of an instant \<open>t\<close> with \<open>k\<close>
  seconds added to the seconds field is \<open>t + k\<close> when the local time it decides on, the
  one with the seconds cut to 59, is not repeated or skipped by a change of the clocks.
  So the stop time is exact, and so is the way back from its local date and time, when
  the stop is not in a local hour repeated in standard time.
\<close>

lemma wall_clock_cong:
  "tm_sec a = tm_sec b \<Longrightarrow> tm_min a = tm_min b \<Longrightarrow> tm_hour a = tm_hour b \<Longrightarrow>
   tm_mday a = tm_mday b \<Longrightarrow> tm_mon a = tm_mon b \<Longrightarrow> tm_year a = tm_year b \<Longrightarrow>
   wall_clock a = wall_clock b"
  by (simp add: wall_clock_def)





text \<open>
  \<^verbatim>\<open>mktime\<close> of the date and time of an instant, the daylight-saving flag undecided,
  returns an instant of that date and time.
\<close>

lemma tz_mktime_returns_date:
  "(tz_localtime_r z (tz_mktime z ((tz_localtime_r z t)\<lparr>tm_wday := 0, tm_isdst := - 1\<rparr>)))
      \<lparr>tm_wday := 0, tm_isdst := - 1\<rparr> =
   (tz_localtime_r z t)\<lparr>tm_wday := 0, tm_isdst := - 1\<rparr>"
proof -
  define f where "f = (if is_dst z t then 1 else 0 :: int)"
  define l where "l = (if is_dst z t then t + dst_offset z else t + std_offset z)"
  have lt: "tz_localtime_r z t = broken_down l f"
    by (simp add: tz_localtime_r_def l_def f_def)
  have s: "0 \<le> tm_sec (broken_down l f)" "tm_sec (broken_down l f) \<le> 59"
    using broken_down_fields [of l f] by simp_all
  have w: "wall_clock ((broken_down l f)\<lparr>tm_wday := 0, tm_isdst := - 1\<rparr>) = l"
    using wall_clock_broken_down [of l f] wall_clock_cong [of "(broken_down l f)\<lparr>tm_wday := 0, tm_isdst := - 1\<rparr>" "broken_down l f"]
    by simp
  have w': "wall_clock ((broken_down l f)\<lparr>tm_sec := tm_sec (broken_down l f), tm_wday := 0, tm_isdst := - 1\<rparr>) = l"
    using w by simp
  have bd: "(broken_down a g)\<lparr>tm_wday := 0, tm_isdst := - 1\<rparr> = (broken_down a g')\<lparr>tm_wday := 0, tm_isdst := - 1\<rparr>" for a g g'
    by (simp add: broken_down_def Let_def split: prod.splits)
  have mk: "tz_mktime z ((broken_down l f)\<lparr>tm_wday := 0, tm_isdst := - 1\<rparr>) =
      (if is_dst z (l - dst_offset z) then l - dst_offset z else l - std_offset z)"
    using s w' by (simp add: tz_mktime_def Let_def min_def max_def)
  show ?thesis
  proof (cases "is_dst z (l - dst_offset z)")
    case True
    then show ?thesis unfolding lt mk by (simp add: tz_localtime_r_def bd [of l 1 f])
  next
    case False
    then have n: "\<not> is_dst z t" by (auto simp: l_def split: if_splits)
    then have "l - std_offset z = t" by (simp add: l_def)
    then show ?thesis unfolding lt [symmetric] mk [unfolded lt [symmetric]] using False by simp
  qed
qed

section \<open>The next event time is the minimum over the live slots\<close>

lemma idx_inv_0: "idx_inv E t evs used 0 (evs, - 1, None)"
  by (simp add: idx_inv_def)

lemma idx_inv_step:
  assumes "idx_inv E t evs used n st" "n < length evs"
  shows "idx_inv E t evs used (Suc n) (getNextEventIdx_step E t used n st)"
proof -
  obtain evs' nextIdx nextEvent where st: "st = (evs', nextIdx, nextEvent)"
    by (cases st) auto
  from assms(1) have len: "length evs' = length evs"
    and el: "\<forall>j < length evs. evs' ! j = (if j < n \<and> used ! j then updateReferenceTime E t (evs ! j) else evs ! j)"
    by (auto simp: idx_inv_def st)
  show ?thesis
  proof (cases nextEvent)
    case None
    with assms show ?thesis
      unfolding st idx_inv_def getNextEventIdx_step_def
      by (auto simp: Let_def nth_list_update less_Suc_eq)
  next
    case (Some k)
    with assms show ?thesis
      unfolding st idx_inv_def getNextEventIdx_step_def
      by (auto simp: Let_def nth_list_update less_Suc_eq event_less_def)
  qed
qed

lemma idx_inv_fold:
  "n \<le> length evs \<Longrightarrow>
   idx_inv E t evs used n (fold (getNextEventIdx_step E t used) [0..<n] (evs, - 1, None))"
proof (induction n)
  case 0
  show ?case by (simp add: idx_inv_0)
next
  case (Suc n)
  then show ?case by (simp add: idx_inv_step)
qed

lemma set_liveOccurances:
  "length used = length evs \<Longrightarrow>
   set (liveOccurances evs used) =
     {getNextOccurance (evs ! j) | j. j < length evs \<and> used ! j \<and> getNextOccurance (evs ! j) \<noteq> 0}"
  unfolding liveOccurances_def
  by (auto simp: set_zip image_iff)

lemma refreshEvents_nth_eq:
  assumes "length evs' = length evs" "length used = length evs"
    "\<forall>j < length evs. evs' ! j = (if used ! j then updateReferenceTime E t (evs ! j) else evs ! j)"
  shows "evs' = refreshEvents E t evs used"
  using assms by (intro nth_equalityI) (auto simp: refreshEvents_def)

lemma getNextEventIdx_result:
  fixes E :: env and t :: time_t
  assumes "length evs = n" "length used = n"
  defines "R \<equiv> refreshEvents E t evs used"
  shows "\<exists>k. getNextEventIdx E t evs used n = (R, k) \<and>
           (if liveOccurances R used = [] then k = - 1
            else 0 \<le> k \<and> getNextOccurance (R ! nat k) \<noteq> 0 \<and>
                 getNextOccurance (R ! nat k) = Min (set (liveOccurances R used)))"
proof -
  obtain evs' k nextEvent where
    f: "fold (getNextEventIdx_step E t used) [0..<n] (evs, - 1, None) = (evs', k, nextEvent)"
    by (cases "fold (getNextEventIdx_step E t used) [0..<n] (evs, - 1, None)") auto
  have g: "getNextEventIdx E t evs used n = (evs', k)"
    by (simp add: getNextEventIdx_def f)
  have inv: "idx_inv E t evs used n (evs', k, nextEvent)"
    using idx_inv_fold [of n evs E t used] assms(1) f by simp
  then have len: "length evs' = length evs"
    and el: "\<forall>j < length evs. evs' ! j = (if used ! j then updateReferenceTime E t (evs ! j) else evs ! j)"
    using assms(1) by (auto simp: idx_inv_def)
  have r: "evs' = R"
    unfolding R_def using refreshEvents_nth_eq [OF len _ el] assms by simp
  have S: "set (liveOccurances evs' used) =
     {getNextOccurance (evs' ! j) | j. j < n \<and> used ! j \<and> getNextOccurance (evs' ! j) \<noteq> 0}"
    using set_liveOccurances [of used evs'] len assms by simp
  have "if liveOccurances evs' used = [] then k = - 1
        else 0 \<le> k \<and> getNextOccurance (evs' ! nat k) \<noteq> 0 \<and>
             getNextOccurance (evs' ! nat k) = Min (set (liveOccurances evs' used))"
  proof (cases nextEvent)
    case None
    with inv have "k = - 1" "\<forall>j < n. used ! j \<longrightarrow> getNextOccurance (evs' ! j) = 0"
      by (auto simp: idx_inv_def)
    then have "set (liveOccurances evs' used) = {}" using S by auto
    then show ?thesis using \<open>k = - 1\<close> by simp
  next
    case (Some i)
    with inv have k: "k = int i" and i: "i < n" "used ! i" "getNextOccurance (evs' ! i) \<noteq> 0"
      and le: "\<forall>j < n. used ! j \<and> getNextOccurance (evs' ! j) \<noteq> 0 \<longrightarrow>
                  getNextOccurance (evs' ! i) \<le> getNextOccurance (evs' ! j)"
      by (auto simp: idx_inv_def)
    have mem: "getNextOccurance (evs' ! i) \<in> set (liveOccurances evs' used)"
      using S i by auto
    have low: "\<forall>x \<in> set (liveOccurances evs' used). getNextOccurance (evs' ! i) \<le> x"
      using S le by auto
    have "Min (set (liveOccurances evs' used)) = getNextOccurance (evs' ! i)"
      using mem low by (intro Min_eqI) auto
    moreover have "liveOccurances evs' used \<noteq> []" using mem by auto
    ultimately show ?thesis using k i by simp
  qed
  then show ?thesis using g r by blast
qed

lemma getNextEventTime_value:
  fixes E :: env and t :: time_t and p :: IrrigationPlanner
  assumes wf: "planner_wf E p"
  defines "R1 \<equiv> refreshEvents E t (events p) (eventsUsed p)"
    and "R2 \<equiv> refreshEvents E t (stopEvents p) (stopEventsUsed p)"
  defines "L1 \<equiv> liveOccurances R1 (eventsUsed p)"
    and "L2 \<equiv> liveOccurances R2 (stopEventsUsed p)"
  shows "getNextEventTime E t False p =
           (if L1 @ L2 = [] then 0 else Min (set (L1 @ L2)), p\<lparr>events := R1, stopEvents := R2\<rparr>)"
proof -
  from wf have l: "length (events p) = irrigationPlannerNumEvents E"
      "length (eventsUsed p) = irrigationPlannerNumEvents E"
      "length (stopEvents p) = irrigationPlannerNumStopEvents E"
      "length (stopEventsUsed p) = irrigationPlannerNumStopEvents E"
    by (auto simp: planner_wf_def)
  obtain k1 where a: "getNextEventIdx E t (events p) (eventsUsed p) (irrigationPlannerNumEvents E) = (R1, k1)"
    and A: "if L1 = [] then k1 = - 1
            else 0 \<le> k1 \<and> getNextOccurance (R1 ! nat k1) \<noteq> 0 \<and> getNextOccurance (R1 ! nat k1) = Min (set L1)"
    using getNextEventIdx_result [OF l(1) l(2), of E t] unfolding R1_def L1_def by blast
  obtain k2 where b: "getNextEventIdx E t (stopEvents p) (stopEventsUsed p) (irrigationPlannerNumStopEvents E) = (R2, k2)"
    and B: "if L2 = [] then k2 = - 1
            else 0 \<le> k2 \<and> getNextOccurance (R2 ! nat k2) \<noteq> 0 \<and> getNextOccurance (R2 ! nat k2) = Min (set L2)"
    using getNextEventIdx_result [OF l(3) l(4), of E t] unfolding R2_def L2_def by blast
  have M: "L1 \<noteq> [] \<Longrightarrow> L2 \<noteq> [] \<Longrightarrow> Min (set (L1 @ L2)) = min (Min (set L1)) (Min (set L2))"
    by (simp add: Min_Un)
  show ?thesis
  proof (cases "L1 = []")
    case e1: True
    show ?thesis
    proof (cases "L2 = []")
      case True
      with e1 A B show ?thesis by (simp add: getNextEventTime_def a b Let_def)
    next
      case False
      with e1 A B show ?thesis by (simp add: getNextEventTime_def a b Let_def)
    qed
  next
    case n1: False
    show ?thesis
    proof (cases "L2 = []")
      case True
      with n1 A B show ?thesis by (simp add: getNextEventTime_def a b Let_def)
    next
      case n2: False
      define m1 where "m1 = Min (set L1)"
      define m2 where "m2 = Min (set L2)"
      have A': "0 \<le> k1" "getNextOccurance (R1 ! nat k1) = m1" "m1 \<noteq> 0"
        using A n1 by (auto simp: m1_def)
      have B': "0 \<le> k2" "getNextOccurance (R2 ! nat k2) = m2" "m2 \<noteq> 0"
        using B n2 by (auto simp: m2_def)
      have "getNextEventTime E t False p = (min m1 m2, p\<lparr>events := R1, stopEvents := R2\<rparr>)"
        using A' B' by (simp add: getNextEventTime_def a b Let_def event_less_def min_def)
      moreover have "Min (set (L1 @ L2)) = min m1 m2"
        using M [OF n1 n2] by (simp add: m1_def m2_def)
      ultimately show ?thesis using n1 by simp
    qed
  qed
qed

text \<open>
  C1. For every state of the two pools whose arrays have their declared sizes and every
  time \<open>t\<close>, \<^verbatim>\<open>getNextEventTime(t, false)\<close> leaves both pools with
  \<^verbatim>\<open>updateReferenceTime(t)\<close> applied to every used slot, and returns the minimum cached
  next occurrence over the live slots of both pools whose occurrence is not 0, or 0 when
  there is no such slot.
\<close>

theorem getNextEventTime_minimum:
  assumes wf: "planner_wf E p"
  shows "snd (getNextEventTime E t False p) =
           p\<lparr>events := refreshEvents E t (events p) (eventsUsed p),
             stopEvents := refreshEvents E t (stopEvents p) (stopEventsUsed p)\<rparr> \<and>
         fst (getNextEventTime E t False p) =
           (let p' = snd (getNextEventTime E t False p);
                occs = liveOccurances (events p') (eventsUsed p') @
                       liveOccurances (stopEvents p') (stopEventsUsed p')
            in if occs = [] then 0 else Min (set occs))"
  by (simp add: getNextEventTime_value [OF wf] Let_def)

theorem getNextEventTime_minimum_witness:
  "planner_wf example_env example_planner \<and>
   fst (getNextEventTime example_env 1711800000 False example_planner) = 1711841400 \<and>
   snd (getNextEventTime example_env 1711800000 False example_planner) =
     example_planner
       \<lparr>events := refreshEvents example_env 1711800000 (events example_planner)
                    (eventsUsed example_planner),
        stopEvents := refreshEvents example_env 1711800000 (stopEvents example_planner)
                        (stopEventsUsed example_planner)\<rparr>"
proof -
  have wf: "planner_wf example_env example_planner"
    by (simp add: planner_wf_def example_env_def example_planner_def)
  have v: "fst (getNextEventTime example_env 1711800000 False example_planner) = 1711841400"
    by code_simp
  from getNextEventTime_minimum [OF wf, of 1711800000] wf v show ?thesis
    by blast
qed

section \<open>Excluding the start time\<close>

lemma weekdayCandidates_ge: "c \<in> set (weekdayCandidates E now h m s wdays) \<Longrightarrow> now \<le> c"
  by (auto simp: weekdayCandidates_def Let_def)

lemma computeNextOccurance_floor:
  "computeNextOccurance E r now = 0 \<or> now \<le> computeNextOccurance E r now"
proof (cases r)
  case (SingleEvent h m s d mon y)
  then show ?thesis by (simp add: Let_def)
next
  case (WeekdayEvent h m s wdays)
  show ?thesis
  proof (cases "weekdayCandidates E now h m s wdays = []")
    case True
    then show ?thesis by (simp add: WeekdayEvent)
  next
    case False
    then have "Min (set (weekdayCandidates E now h m s wdays)) \<in> set (weekdayCandidates E now h m s wdays)"
      by (intro Min_in) auto
    then have "now \<le> Min (set (weekdayCandidates E now h m s wdays))"
      by (rule weekdayCandidates_ge)
    then show ?thesis using False by (simp add: WeekdayEvent Let_def)
  qed
qed

lemma liveOccurances_refreshed_floor:
  assumes "x \<in> set (liveOccurances (refreshEvents E t evs used) used)"
  shows "t \<le> x"
proof -
  from assms obtain e u where m: "(e, u) \<in> set (zip (refreshEvents E t evs used) used)"
    and u: "u" and x: "x = getNextOccurance e" "x \<noteq> 0"
    by (auto simp: liveOccurances_def)
  from m obtain j where j: "j < length (refreshEvents E t evs used)" "j < length used"
    "e = refreshEvents E t evs used ! j" "u = used ! j"
    by (auto simp: set_zip)
  then have "e = updateReferenceTime E t (evs ! j)"
    using u by (simp add: refreshEvents_def)
  then have "x = computeNextOccurance E (recurrence (evs ! j)) t"
    using x by (simp add: getNextOccurance_def updateReferenceTime_def)
  with computeNextOccurance_floor [of E "recurrence (evs ! j)" t] x show ?thesis by auto
qed

text \<open>
  Where the C library's round trip of \<open>t\<close> with the seconds field incremented yields
  \<open>t + 1\<close>, \<^verbatim>\<open>getNextEventTime(t, true)\<close> is \<^verbatim>\<open>getNextEventTime(t + 1, false)\<close>, whose
  result is 0 or later than \<open>t\<close>.
\<close>

lemma getNextEventTime_floor_advanced:
  assumes wf: "planner_wf E p"
    and libc: "mktime E ((localtime_r E t)\<lparr>tm_sec := int32 (tm_sec (localtime_r E t) + 1)\<rparr>) = t + 1"
  shows "getNextEventTime E t True p = getNextEventTime E (t + 1) False p \<and>
         (let r = fst (getNextEventTime E t True p);
              p' = snd (getNextEventTime E t True p);
              occs = liveOccurances (events p') (eventsUsed p') @
                     liveOccurances (stopEvents p') (stopEventsUsed p')
          in (occs = [] \<longrightarrow> r = 0) \<and> (occs \<noteq> [] \<longrightarrow> t < r) \<and>
             ((\<exists>x \<in> set occs. t < x) \<longrightarrow> r \<noteq> t))"
proof -
  define L where
    "L = liveOccurances (refreshEvents E (t + 1) (events p) (eventsUsed p)) (eventsUsed p) @
         liveOccurances (refreshEvents E (t + 1) (stopEvents p) (stopEventsUsed p)) (stopEventsUsed p)"
  define r where "r = fst (getNextEventTime E (t + 1) False p)"
  have eq: "getNextEventTime E t True p = getNextEventTime E (t + 1) False p"
    by (simp add: getNextEventTime_def Let_def libc)
  have v: "getNextEventTime E (t + 1) False p =
      (if L = [] then 0 else Min (set L),
       p\<lparr>events := refreshEvents E (t + 1) (events p) (eventsUsed p),
         stopEvents := refreshEvents E (t + 1) (stopEvents p) (stopEventsUsed p)\<rparr>)"
    unfolding L_def using getNextEventTime_value [OF wf, of "t + 1"] by simp
  have fl: "\<forall>x \<in> set L. t + 1 \<le> x"
    unfolding L_def using liveOccurances_refreshed_floor by auto
  have rv: "r = (if L = [] then 0 else Min (set L))"
    unfolding r_def v by simp
  have r0: "L = [] \<longrightarrow> r = 0"
    using rv by simp
  have r1: "L \<noteq> [] \<longrightarrow> t < r"
  proof
    assume n: "L \<noteq> []"
    define m where "m = Min (set L)"
    have "m \<in> set L" unfolding m_def using n by (intro Min_in) auto
    with fl have "t + 1 \<le> m" by blast
    moreover have "r = m" using n rv by (simp add: m_def)
    ultimately show "t < r" by linarith
  qed
  have r2: "(\<exists>x \<in> set L. t < x) \<longrightarrow> r \<noteq> t"
    using r1 by fastforce
  have occs: "liveOccurances (events (snd (getNextEventTime E (t + 1) False p)))
                (eventsUsed (snd (getNextEventTime E (t + 1) False p))) @
              liveOccurances (stopEvents (snd (getNextEventTime E (t + 1) False p)))
                (stopEventsUsed (snd (getNextEventTime E (t + 1) False p))) = L"
    unfolding v L_def by simp
  show ?thesis
    unfolding eq Let_def occs r_def [symmetric] using r0 r1 r2 by blast
qed

text \<open>
  C6. With the C library of a time zone (any two offsets, any daylight-saving schedule,
  \<^verbatim>\<open>mktime\<close> honouring the non-negative \<^verbatim>\<open>tm_isdst\<close> that \<^verbatim>\<open>localtime_r\<close> set), for every
  time \<open>t\<close>, \<^verbatim>\<open>getNextEventTime(t, true)\<close> is \<^verbatim>\<open>getNextEventTime(t + 1, false)\<close>: the
  search floor is advanced by exactly one second before scanning, also across a
  daylight-saving transition. Its result is 0 when no live slot has a valid occurrence
  after the scan, and later than \<open>t\<close> otherwise; so it is never \<open>t\<close> when a live slot has
  a valid occurrence later than \<open>t\<close>.
\<close>

theorem getNextEventTime_excludes_start:
  assumes wf: "planner_wf E p"
    and lt: "localtime_r E = tz_localtime_r z"
    and mk: "mktime E = tz_mktime z"
  shows "getNextEventTime E t True p = getNextEventTime E (t + 1) False p \<and>
         (let r = fst (getNextEventTime E t True p);
              p' = snd (getNextEventTime E t True p);
              occs = liveOccurances (events p') (eventsUsed p') @
                     liveOccurances (stopEvents p') (stopEventsUsed p')
          in (occs = [] \<longrightarrow> r = 0) \<and> (occs \<noteq> [] \<longrightarrow> t < r) \<and>
             ((\<exists>x \<in> set occs. t < x) \<longrightarrow> r \<noteq> t))"
proof -
  have "mktime E ((localtime_r E t)\<lparr>tm_sec := int32 (tm_sec (localtime_r E t) + 1)\<rparr>) = t + 1"
    unfolding lt mk by (rule tz_round_trip_second)
  with wf show ?thesis by (rule getNextEventTime_floor_advanced)
qed

theorem getNextEventTime_excludes_start_witness:
  "planner_wf example_env example_planner \<and>
   localtime_r example_env = tz_localtime_r cet \<and>
   mktime example_env = tz_mktime cet \<and>
   tm_isdst (localtime_r example_env 1711846799) = 0 \<and>
   tm_isdst (localtime_r example_env (1711846799 + 1)) = 1 \<and>
   getNextEventTime example_env 1711846799 True example_planner =
     getNextEventTime example_env (1711846799 + 1) False example_planner \<and>
   fst (getNextEventTime example_env 1711846799 True example_planner) = 1712030400"
proof -
  have wf: "planner_wf example_env example_planner"
    by (simp add: planner_wf_def example_env_def example_planner_def)
  have lt: "localtime_r example_env = tz_localtime_r cet"
    and mk: "mktime example_env = tz_mktime cet"
    by (simp_all add: example_env_def)
  have d: "tm_isdst (localtime_r example_env 1711846799) = 0"
    "tm_isdst (localtime_r example_env (1711846799 + 1)) = 1"
    by code_simp+
  have v: "fst (getNextEventTime example_env 1711846799 True example_planner) = 1712030400"
    by code_simp
  from getNextEventTime_excludes_start [OF wf lt mk, of 1711846799] wf lt mk d v show ?thesis
    by blast
qed

section \<open>Confirming a start event\<close>

lemma confirmNormalEvent_loop_find:
  "confirmNormalEvent_loop E eIdx is p =
     (case find (\<lambda>i. \<not> stopEventsUsed p ! i) is of
        None \<Rightarrow> (False, p)
      | Some i \<Rightarrow> confirmNormalEvent_slot E eIdx i p)"
  by (induction "is") auto

lemma confirmNormalEvent_slot_eventsUsed:
  "IrrigationPlanner.eventsUsed (snd (confirmNormalEvent_slot E eIdx i p)) = IrrigationPlanner.eventsUsed p"
  by (simp add: confirmNormalEvent_slot_def event_getEventData_def Let_def)

lemma confirmNormalEvent_loop_eventsUsed:
  "IrrigationPlanner.eventsUsed (snd (confirmNormalEvent_loop E eIdx is p)) = IrrigationPlanner.eventsUsed p"
  by (simp add: confirmNormalEvent_loop_find confirmNormalEvent_slot_eventsUsed split: option.splits)

lemma confirmNormalEvent_loop_full:
  "\<forall>i \<in> set is. stopEventsUsed p ! i \<Longrightarrow> confirmNormalEvent_loop E eIdx is p = (False, p)"
  by (induction "is") auto

text \<open>
  C4. For every valid start-pool handle (in range, its slot used): if its index lies
  beyond the reserved recurring prefix, \<^verbatim>\<open>confirmEvent\<close> clears the slot's used-flag,
  whatever the stop-slot allocation does; and if no stop slot is free, \<^verbatim>\<open>confirmEvent\<close>
  returns \<^verbatim>\<open>ERR_NO_STOP_SLOT_AVAIL\<close>.
\<close>

theorem confirmEvent_retires_one_shot:
  assumes "planner_wf E p"
    and "isStart h" "0 \<le> idx h" "idx h < int (irrigationPlannerNumEvents E)"
    and "IrrigationPlanner.eventsUsed p ! nat (idx h)"
  shows "(irrigationPlannerNumNormalEvents E \<le> nat (idx h) \<longrightarrow>
            \<not> IrrigationPlanner.eventsUsed (snd (confirmEvent E h p)) ! nat (idx h)) \<and>
         ((\<forall>i < irrigationPlannerNumStopEvents E. stopEventsUsed p ! i) \<longrightarrow>
            fst (confirmEvent E h p) = ERR_NO_STOP_SLOT_AVAIL)"
proof -
  let ?k = "nat (idx h)"
  obtain ok p1 where l: "confirmNormalEvent_loop E ?k [0..<irrigationPlannerNumStopEvents E] p = (ok, p1)"
    by (cases "confirmNormalEvent_loop E ?k [0..<irrigationPlannerNumStopEvents E] p") auto
  have u: "IrrigationPlanner.eventsUsed p1 = IrrigationPlanner.eventsUsed p"
    using confirmNormalEvent_loop_eventsUsed [of E ?k "[0..<irrigationPlannerNumStopEvents E]" p] l by simp
  have len: "?k < length (IrrigationPlanner.eventsUsed p)"
    using assms by (auto simp: planner_wf_def)
  have c: "confirmEvent E h p =
      (if \<not> ok then ERR_NO_STOP_SLOT_AVAIL else ERR_OK,
       if irrigationPlannerNumNormalEvents E \<le> ?k
       then p1\<lparr>IrrigationPlanner.eventsUsed := (IrrigationPlanner.eventsUsed p1)[?k := False]\<rparr> else p1)"
    using assms by (simp add: confirmEvent_def confirmNormalEvent_def l)
  have a: "irrigationPlannerNumNormalEvents E \<le> ?k \<Longrightarrow>
      \<not> IrrigationPlanner.eventsUsed (snd (confirmEvent E h p)) ! ?k"
    using len by (simp add: c u)
  have b: "\<forall>i < irrigationPlannerNumStopEvents E. stopEventsUsed p ! i \<Longrightarrow>
      fst (confirmEvent E h p) = ERR_NO_STOP_SLOT_AVAIL"
  proof -
    assume "\<forall>i < irrigationPlannerNumStopEvents E. stopEventsUsed p ! i"
    then have "confirmNormalEvent_loop E ?k [0..<irrigationPlannerNumStopEvents E] p = (False, p)"
      by (intro confirmNormalEvent_loop_full) simp
    with l have "\<not> ok" by simp
    then show ?thesis by (simp add: c)
  qed
  from a b show ?thesis by blast
qed

theorem confirmEvent_retires_one_shot_witness:
  "planner_wf example_env full_planner \<and>
   irrigationPlannerNumNormalEvents example_env \<le> 2 \<and>
   stopEventsUsed full_planner = [True, True] \<and>
   IrrigationPlanner.eventsUsed full_planner ! 2 \<and>
   \<not> IrrigationPlanner.eventsUsed
        (snd (confirmEvent example_env \<lparr>idx = 2, isStart = True\<rparr> full_planner)) ! 2 \<and>
   fst (confirmEvent example_env \<lparr>idx = 2, isStart = True\<rparr> full_planner) = ERR_NO_STOP_SLOT_AVAIL"
proof -
  have wf: "planner_wf example_env full_planner"
    by (simp add: planner_wf_def example_env_def example_planner_def full_planner_def)
  have n: "irrigationPlannerNumNormalEvents example_env \<le> nat (idx \<lparr>idx = 2, isStart = True\<rparr>)"
    by (simp add: example_env_def)
  have f: "\<forall>i < irrigationPlannerNumStopEvents example_env. stopEventsUsed full_planner ! i"
    by (simp add: example_env_def full_planner_def less_Suc_eq numeral_2_eq_2)
  have u: "IrrigationPlanner.eventsUsed full_planner ! nat (idx \<lparr>idx = 2, isStart = True\<rparr>)"
    by (simp add: full_planner_def example_planner_def)
  have s: "stopEventsUsed full_planner = [True, True]"
    by (simp add: full_planner_def)
  have nn: "irrigationPlannerNumNormalEvents example_env \<le> 2"
    by (simp add: example_env_def)
  have h: "isStart \<lparr>idx = 2, isStart = True\<rparr>" "0 \<le> idx \<lparr>idx = 2, isStart = True\<rparr>"
    "idx \<lparr>idx = 2, isStart = True\<rparr> < int (irrigationPlannerNumEvents example_env)"
    by (simp_all add: example_env_def)
  from confirmEvent_retires_one_shot [OF wf h u] n f wf u nn s show ?thesis
    by simp
qed

text \<open>
  Confirming a start event takes a stop slot only if its used-flag is false: a stop slot
  that is in use keeps its event and its flag, and the pool keeps its size.
\<close>

lemma confirmNormalEvent_slot_keeps_others:
  assumes "j \<noteq> i"
  shows "stopEvents (snd (confirmNormalEvent_slot E eIdx i p)) ! j = stopEvents p ! j \<and>
         stopEventsUsed (snd (confirmNormalEvent_slot E eIdx i p)) ! j = stopEventsUsed p ! j"
  using assms by (simp add: confirmNormalEvent_slot_def event_getEventData_def Let_def)

lemma confirmNormalEvent_slot_lengths:
  "length (stopEvents (snd (confirmNormalEvent_slot E eIdx i p))) = length (stopEvents p) \<and>
   length (stopEventsUsed (snd (confirmNormalEvent_slot E eIdx i p))) = length (stopEventsUsed p)"
  by (simp add: confirmNormalEvent_slot_def event_getEventData_def Let_def)

lemma confirmEvent_keeps_used_stop_slots:
  assumes "isStart h" "stopEventsUsed p ! j"
  shows "stopEvents (snd (confirmEvent E h p)) ! j = stopEvents p ! j \<and>
         stopEventsUsed (snd (confirmEvent E h p)) ! j \<and>
         length (stopEventsUsed (snd (confirmEvent E h p))) = length (stopEventsUsed p)"
proof (cases "find (\<lambda>i. \<not> stopEventsUsed p ! i) [0..<irrigationPlannerNumStopEvents E]")
  case None
  then show ?thesis using assms
    by (simp add: confirmEvent_def confirmNormalEvent_def confirmNormalEvent_loop_find split: prod.splits)
next
  case (Some i)
  then have "\<not> stopEventsUsed p ! i" by (auto simp: find_Some_iff)
  with assms have ne: "j \<noteq> i" by auto
  obtain ok p1 where s: "confirmNormalEvent_slot E (nat (idx h)) i p = (ok, p1)"
    by (cases "confirmNormalEvent_slot E (nat (idx h)) i p") auto
  from confirmNormalEvent_slot_keeps_others [OF ne, of E "nat (idx h)" p]
    confirmNormalEvent_slot_lengths [of E "nat (idx h)" i p] s
  have k: "stopEvents p1 ! j = stopEvents p ! j" "stopEventsUsed p1 ! j = stopEventsUsed p ! j"
    "length (stopEventsUsed p1) = length (stopEventsUsed p)"
    by simp_all
  show ?thesis using assms k
    by (simp add: confirmEvent_def confirmNormalEvent_def confirmNormalEvent_loop_find Some s)
qed

section \<open>The stop event of a confirmed start event\<close>




text \<open>
  So a run of three hours from 2024-03-31 00:30:00, across the hour that the clocks
  skip, stops at 04:30:00 daylight-saving time. The condition on the stop cannot be
  dropped, whatever the C library: the stop event stores a local date and time without
  the daylight-saving flag, so two stop times with the same local date and time get the
  same occurrence.
\<close>

lemma confirmEvent_spring_forward:
  "getNextOccurance (IrrigationPlanner.events example_planner ! 2) +
     durationSecs (eventData (IrrigationPlanner.events example_planner ! 2)) = 1711852200 \<and>
   tm_isdst (localtime_r example_env (getNextOccurance (IrrigationPlanner.events example_planner ! 2))) = 0 \<and>
   tm_isdst (localtime_r example_env 1711852200) = 1 \<and>
   recurrence (stopEvents (snd (confirmEvent example_env \<lparr>idx = 2, isStart = True\<rparr>
       example_planner)) ! 0) = SingleEvent 4 30 0 31 3 2024 \<and>
   getNextOccurance (stopEvents (snd (confirmEvent example_env \<lparr>idx = 2, isStart = True\<rparr>
       example_planner)) ! 0) = 1711852200"
  by code_simp




text \<open>
  In the library model, which takes a repeated local time for daylight-saving time, the
  stop events of the durations 3600 s and 7200 s both occur at 1729989000; whatever
  \<^verbatim>\<open>mktime\<close> is, both confirmations succeed.
\<close>

lemma late_stop_in_library_model:
  "getNextOccurance (stopEvents (snd (confirmEvent example_env \<lparr>idx = 2, isStart = True\<rparr>
       (late_planner 3600))) ! 0) = 1729989000 \<and>
   getNextOccurance (stopEvents (snd (confirmEvent example_env \<lparr>idx = 2, isStart = True\<rparr>
       (late_planner 7200))) ! 0) = 1729989000"
  by code_simp



section \<open>The handles of a time\<close>

lemma scanEventHandles_result:
  assumes "handleCnt \<le> maxElements"
  shows "scanEventHandles eventTime st evs used maxElements is (ret, handleCnt, dest) =
     (let ms = matchingSlots eventTime evs used is;
          n = min (handleCnt + length ms) maxElements
      in (if maxElements < handleCnt + length ms then ERR_PARTIAL_EVENT_HANDLES else ret,
          n,
          \<lambda>k. if handleCnt \<le> k \<and> k < n
               then (dest k)\<lparr>idx := int (ms ! (k - handleCnt)), isStart := st\<rparr>
               else dest k))"
  using assms
proof (induction "is" arbitrary: ret handleCnt dest)
  case Nil
  then show ?case by (auto simp: matchingSlots_def fun_eq_iff)
next
  case (Cons i "is")
  show ?case
  proof (cases "used ! i \<and> getNextOccurance (evs ! i) = eventTime")
    case False
    then have "matchingSlots eventTime evs used (i # is) = matchingSlots eventTime evs used is"
      by (auto simp: matchingSlots_def)
    moreover have "scanEventHandles eventTime st evs used maxElements (i # is) (ret, handleCnt, dest) =
        scanEventHandles eventTime st evs used maxElements is (ret, handleCnt, dest)"
      using False by auto
    ultimately show ?thesis using Cons.IH [OF Cons.prems] by simp
  next
    case True
    then have ms: "matchingSlots eventTime evs used (i # is) = i # matchingSlots eventTime evs used is"
      by (auto simp: matchingSlots_def)
    show ?thesis
    proof (cases "handleCnt < maxElements")
      case False
      with Cons.prems have "handleCnt = maxElements" by simp
      then show ?thesis using True ms by (auto simp: Let_def fun_eq_iff)
    next
      case lt: True
      then have le: "Suc handleCnt \<le> maxElements" by simp
      have "scanEventHandles eventTime st evs used maxElements (i # is) (ret, handleCnt, dest) =
        scanEventHandles eventTime st evs used maxElements is
          (ret, Suc handleCnt, dest(handleCnt := (dest handleCnt)\<lparr>idx := int i, isStart := st\<rparr>))"
        using True lt by simp
      also have "\<dots> = (let ms = matchingSlots eventTime evs used (i # is);
          n = min (handleCnt + length ms) maxElements
      in (if maxElements < handleCnt + length ms then ERR_PARTIAL_EVENT_HANDLES else ret,
          n,
          \<lambda>k. if handleCnt \<le> k \<and> k < n
               then (dest k)\<lparr>idx := int (ms ! (k - handleCnt)), isStart := st\<rparr>
               else dest k))"
        unfolding Cons.IH [OF le] ms Let_def using lt
        by (auto simp: fun_eq_iff nth_Cons' Suc_diff_le)
      finally show ?thesis .
    qed
  qed
qed
lemma clearHandles_result:
  "clearHandles handleCnt maxElements dest =
     (\<lambda>k. if handleCnt \<le> k \<and> k < maxElements then (dest k)\<lparr>idx := - 1\<rparr> else dest k)"
  unfolding clearHandles_def
  by (induction maxElements) (auto simp: fun_eq_iff less_Suc_eq not_le)

lemma getEventHandles_result:
  "getEventHandles E eventTime dest maxElements p =
     (let M = matchingHandles E eventTime p; n = min (length M) maxElements
      in (if n = 0 then ERR_NO_HANDLES_FOUND
          else if maxElements < length M then ERR_PARTIAL_EVENT_HANDLES else ERR_OK,
          \<lambda>k. if k < n then M ! k
               else if k < maxElements then (dest k)\<lparr>idx := - 1\<rparr> else dest k))"
proof -
  let ?A = "matchingSlots eventTime (IrrigationPlanner.events p) (IrrigationPlanner.eventsUsed p)
              [0..<irrigationPlannerNumEvents E]"
  let ?B = "matchingSlots eventTime (stopEvents p) (stopEventsUsed p)
              [0..<irrigationPlannerNumStopEvents E]"
  have rec: "\<And>(h::event_handle_t) a b. h\<lparr>idx := a, isStart := b\<rparr> = \<lparr>idx = a, isStart = b\<rparr>"
    by simp
  have M: "matchingHandles E eventTime p =
      map (\<lambda>i. \<lparr>idx = int i, isStart = True\<rparr>) ?A @ map (\<lambda>i. \<lparr>idx = int i, isStart = False\<rparr>) ?B"
    by (simp add: matchingHandles_def)
  show ?thesis
    unfolding getEventHandles_def M
    by (simp add: scanEventHandles_result clearHandles_result Let_def rec del: scanEventHandles.simps)
       (auto simp: fun_eq_iff nth_append min_def)
qed

text \<open>
  C8. For every event time, destination and capacity \<^verbatim>\<open>maxElements\<close>, with \<open>M\<close> the
  matching handles in pool-scan order (start pool by ascending index, then stop pool) and
  \<open>n\<close> the lesser of their number and \<^verbatim>\<open>maxElements\<close>: \<^verbatim>\<open>getEventHandles\<close> leaves the first
  \<open>n\<close> handles of \<open>M\<close> in \<^verbatim>\<open>dest[0..n-1]\<close>, sets the index of every element from \<open>n\<close> up to
  \<^verbatim>\<open>maxElements - 1\<close> to -1, and leaves every element from \<^verbatim>\<open>maxElements\<close> on as it was.
\<close>

theorem getEventHandles_order_and_bounds:
  "(let M = matchingHandles E eventTime p;
        n = min (length M) maxElements;
        dest' = snd (getEventHandles E eventTime dest maxElements p)
    in (\<forall>k < n. dest' k = M ! k) \<and>
       (\<forall>k. n \<le> k \<and> k < maxElements \<longrightarrow> dest' k = (dest k)\<lparr>idx := - 1\<rparr>) \<and>
       (\<forall>k. maxElements \<le> k \<longrightarrow> dest' k = dest k))"
  by (auto simp: getEventHandles_result Let_def)

theorem getEventHandles_order_and_bounds_witness:
  "snd (getEventHandles example_env 1711841400 stale_dest 4 busy_planner) 0 = \<lparr>idx = 0, isStart = True\<rparr> \<and>
   snd (getEventHandles example_env 1711841400 stale_dest 4 busy_planner) 1 = \<lparr>idx = 2, isStart = True\<rparr> \<and>
   snd (getEventHandles example_env 1711841400 stale_dest 4 busy_planner) 2 = \<lparr>idx = 0, isStart = False\<rparr> \<and>
   snd (getEventHandles example_env 1711841400 stale_dest 4 busy_planner) 3 = \<lparr>idx = - 1, isStart = True\<rparr> \<and>
   snd (getEventHandles example_env 1711841400 stale_dest 4 busy_planner) 4 = stale_dest 4"
proof -
  have M: "matchingHandles example_env 1711841400 busy_planner =
      [\<lparr>idx = 0, isStart = True\<rparr>, \<lparr>idx = 2, isStart = True\<rparr>, \<lparr>idx = 0, isStart = False\<rparr>]"
    by code_simp
  let ?d = "snd (getEventHandles example_env 1711841400 stale_dest 4 busy_planner)"
  from getEventHandles_order_and_bounds [of example_env 1711841400 busy_planner 4 stale_dest]
  have a: "\<forall>k < 3. ?d k = [\<lparr>idx = 0, isStart = True\<rparr>, \<lparr>idx = 2, isStart = True\<rparr>,
                             \<lparr>idx = 0, isStart = False\<rparr>] ! k"
    and b: "\<forall>k. 3 \<le> k \<and> k < 4 \<longrightarrow> ?d k = (stale_dest k)\<lparr>idx := - 1\<rparr>"
    and c: "\<forall>k. 4 \<le> k \<longrightarrow> ?d k = stale_dest k"
    by (simp_all add: Let_def M)
  have "?d 0 = \<lparr>idx = 0, isStart = True\<rparr>" using a by simp
  moreover have "?d 1 = \<lparr>idx = 2, isStart = True\<rparr>" using a by simp
  moreover have "?d 2 = \<lparr>idx = 0, isStart = False\<rparr>" using a by simp
  moreover have "?d 3 = \<lparr>idx = - 1, isStart = True\<rparr>" using b by (simp add: stale_dest_def)
  moreover have "?d 4 = stale_dest 4" using c by simp
  ultimately show ?thesis by blast
qed

text \<open>
  The status of \<^verbatim>\<open>getEventHandles\<close>: with room for at least one handle it is
  \<^verbatim>\<open>ERR_NO_HANDLES_FOUND\<close> exactly when nothing matches, and
  \<^verbatim>\<open>ERR_PARTIAL_EVENT_HANDLES\<close> exactly when more slots match than the capacity.
\<close>

lemma getEventHandles_status:
  "0 < maxElements \<Longrightarrow>
   fst (getEventHandles E eventTime dest maxElements p) =
     (if matchingHandles E eventTime p = [] then ERR_NO_HANDLES_FOUND
      else if maxElements < length (matchingHandles E eventTime p) then ERR_PARTIAL_EVENT_HANDLES
      else ERR_OK)"
  by (auto simp: getEventHandles_result Let_def)

text \<open>
  C5, at capacity 0. Three live slots are due at 1711841400, more than the capacity, and
  \<^verbatim>\<open>getEventHandles\<close> returns \<^verbatim>\<open>ERR_NO_HANDLES_FOUND\<close>: the scan sets
  \<^verbatim>\<open>ERR_PARTIAL_EVENT_HANDLES\<close>, and the final test of \<^verbatim>\<open>handleCnt\<close>, which counts the
  handles written, overwrites it.
\<close>

theorem getEventHandles_zero_capacity:
  "length (matchingHandles example_env 1711841400 busy_planner) = 3 \<and>
   fst (getEventHandles example_env 1711841400 stale_dest 0 busy_planner) = ERR_NO_HANDLES_FOUND"
proof -
  have "matchingHandles example_env 1711841400 busy_planner =
      [\<lparr>idx = 0, isStart = True\<rparr>, \<lparr>idx = 2, isStart = True\<rparr>, \<lparr>idx = 0, isStart = False\<rparr>]"
    by code_simp
  then show ?thesis by (simp add: getEventHandles_result Let_def)
qed

section \<open>Zones\<close>

lemma getZoneConfig_invalid_iff:
  "getZoneConfig E zIdx cfg p = Some (ERR_INVALID_ZONE_IDX, cfg) \<longleftrightarrow>
     zIdx < 0 \<or> int (irrigationZoneCfgElements E) \<le> zIdx"
  by (simp add: getZoneConfig_def)

text \<open>
  C3, at an index between the number of channel slots of a zone and the number of zones.
  The planner has three zones of two channel slots each; \<^verbatim>\<open>getZoneConfig(2, cfg)\<close> returns
  \<^verbatim>\<open>ERR_INVALID_ZONE_IDX\<close> and leaves \<^verbatim>\<open>*cfg\<close> as it was although zone 2 exists: the index
  is compared with \<^verbatim>\<open>irrigationZoneCfgElements\<close>, not with the number of zones.
\<close>

theorem getZoneConfig_rejects_existing_zone:
  "irrigationPlannerNumZones example_env = 3 \<and>
   length (IrrigationPlanner.zones example_planner) = 3 \<and>
   getZoneConfig example_env 2 (example_zone ''none'') example_planner =
     Some (ERR_INVALID_ZONE_IDX, example_zone ''none'')"
  by (simp add: getZoneConfig_def example_env_def example_planner_def)

section \<open>The configuration reload\<close>

lemma copy_print_fields [simp]:
  "configLock (printAllEvents E now p) = configLock p"
  "configUpdatedDuringLock (printAllEvents E now p) = configUpdatedDuringLock p"
  "configUpdatedHook (printAllEvents E now p) = configUpdatedHook p"
  "configUpdatedHookParamPtr (printAllEvents E now p) = configUpdatedHookParamPtr p"
  "configMutex (printAllEvents E now p) = configMutex p"
  "hookMutex (printAllEvents E now p) = hookMutex p"
  "configLock (copyZonesAndEvents E sd p) = configLock p"
  "configUpdatedDuringLock (copyZonesAndEvents E sd p) = configUpdatedDuringLock p"
  "configUpdatedHook (copyZonesAndEvents E sd p) = configUpdatedHook p"
  "configUpdatedHookParamPtr (copyZonesAndEvents E sd p) = configUpdatedHookParamPtr p"
  "configMutex (copyZonesAndEvents E sd p) = configMutex p"
  "hookMutex (copyZonesAndEvents E sd p) = hookMutex p"
  by (simp_all add: printAllEvents_def copyZonesAndEvents_def Let_def)

lemma irrigConfigUpdated_locked:
  "configLock p \<Longrightarrow> irrigConfigUpdated E sd now p = (p\<lparr>configUpdatedDuringLock := True\<rparr>, [])"
  by (simp add: irrigConfigUpdated_def)

lemma print_copy_mutex:
  "printAllEvents E now (copyZonesAndEvents E sd (p\<lparr>configMutex := b\<rparr>)) =
   (printAllEvents E now (copyZonesAndEvents E sd p))\<lparr>configMutex := b\<rparr>"
  by (simp add: printAllEvents_def copyZonesAndEvents_def Let_def)

lemma irrigConfigUpdated_applied:
  assumes "\<not> configLock p" "\<not> configMutex p" "\<not> hookMutex p"
  shows "irrigConfigUpdated E sd now p =
     (printAllEvents E now (copyZonesAndEvents E sd p),
      CopyZonesAndEvents #
        (case configUpdatedHook p of None \<Rightarrow> []
         | Some hook \<Rightarrow> [HookCalled hook (configUpdatedHookParamPtr p)]))"
proof -
  let ?q = "printAllEvents E now (copyZonesAndEvents E sd p)"
  have "?q\<lparr>configMutex := True, hookMutex := True, hookMutex := False, configMutex := False\<rparr> = ?q"
    using assms by simp
  then show ?thesis
    using assms by (simp add: irrigConfigUpdated_def Let_def print_copy_mutex split: option.splits)
qed

lemma notify_locked_funpow:
  "configLock p \<Longrightarrow>
   ((\<lambda>s. fst (irrigConfigUpdated E sd now s)) ^^ n) p =
     (if n = 0 then p else p\<lparr>configUpdatedDuringLock := True\<rparr>)"
  by (induction n) (auto simp: irrigConfigUpdated_locked)

lemma setConfigLock_release:
  assumes "configUpdatedDuringLock p" "\<not> configMutex p" "\<not> hookMutex p"
  shows "setConfigLock E sd now False p =
     (printAllEvents E now (copyZonesAndEvents E sd (p\<lparr>configLock := False, configUpdatedDuringLock := False\<rparr>)),
      CopyZonesAndEvents #
        (case configUpdatedHook p of None \<Rightarrow> []
         | Some hook \<Rightarrow> [HookCalled hook (configUpdatedHookParamPtr p)]))"
  using assms by (simp add: setConfigLock_def irrigConfigUpdated_applied Let_def split: option.splits)

text \<open>
  C9. While the config lock is held, \<^verbatim>\<open>irrigConfigUpdated\<close> only sets the deferral flag:
  nothing is copied and the hook is not called. When, after any positive number of such
  notifications, \<^verbatim>\<open>setConfigLock(false)\<close> releases the lock with both mutexes free, the
  configuration is copied exactly once and the hook, if registered, is called exactly
  once. A reload with the lock and both mutexes free calls the registered hook exactly
  once.
\<close>

theorem config_update_deferred_once:
  "(configLock p \<longrightarrow>
      irrigConfigUpdated E sd now p = (p\<lparr>configUpdatedDuringLock := True\<rparr>, [])) \<and>
   (configLock p \<and> 0 < n \<and> \<not> configMutex p \<and> \<not> hookMutex p \<longrightarrow>
      setConfigLock E sd' now' False (((\<lambda>s. fst (irrigConfigUpdated E sd now s)) ^^ n) p) =
        (printAllEvents E now' (copyZonesAndEvents E sd'
           (p\<lparr>configLock := False, configUpdatedDuringLock := False\<rparr>)),
         CopyZonesAndEvents #
           (case configUpdatedHook p of None \<Rightarrow> []
            | Some hook \<Rightarrow> [HookCalled hook (configUpdatedHookParamPtr p)]))) \<and>
   (\<not> configLock p \<and> \<not> configMutex p \<and> \<not> hookMutex p \<and> configUpdatedHook p = Some hook \<longrightarrow>
      irrigConfigUpdated E sd now p =
        (printAllEvents E now (copyZonesAndEvents E sd p),
         [CopyZonesAndEvents, HookCalled hook (configUpdatedHookParamPtr p)]))"
proof (intro conjI impI)
  assume "configLock p"
  then show "irrigConfigUpdated E sd now p = (p\<lparr>configUpdatedDuringLock := True\<rparr>, [])"
    by (rule irrigConfigUpdated_locked)
next
  assume a: "configLock p \<and> 0 < n \<and> \<not> configMutex p \<and> \<not> hookMutex p"
  then have q: "((\<lambda>s. fst (irrigConfigUpdated E sd now s)) ^^ n) p = p\<lparr>configUpdatedDuringLock := True\<rparr>"
    by (simp add: notify_locked_funpow)
  show "setConfigLock E sd' now' False (((\<lambda>s. fst (irrigConfigUpdated E sd now s)) ^^ n) p) =
        (printAllEvents E now' (copyZonesAndEvents E sd'
           (p\<lparr>configLock := False, configUpdatedDuringLock := False\<rparr>)),
         CopyZonesAndEvents #
           (case configUpdatedHook p of None \<Rightarrow> []
            | Some hook \<Rightarrow> [HookCalled hook (configUpdatedHookParamPtr p)]))"
    unfolding q using a by (simp add: setConfigLock_release split: option.splits)
next
  assume "\<not> configLock p \<and> \<not> configMutex p \<and> \<not> hookMutex p \<and> configUpdatedHook p = Some hook"
  then show "irrigConfigUpdated E sd now p =
        (printAllEvents E now (copyZonesAndEvents E sd p),
         [CopyZonesAndEvents, HookCalled hook (configUpdatedHookParamPtr p)])"
    by (simp add: irrigConfigUpdated_applied)
qed

theorem config_update_deferred_once_witness:
  "irrigConfigUpdated example_env example_settings 5 (example_planner\<lparr>configLock := True\<rparr>) =
     (example_planner\<lparr>configLock := True, configUpdatedDuringLock := True\<rparr>, []) \<and>
   snd (setConfigLock example_env example_settings 9 False
          (((\<lambda>s. fst (irrigConfigUpdated example_env example_settings 5 s)) ^^ 3)
             (example_planner\<lparr>configLock := True\<rparr>))) =
     [CopyZonesAndEvents, HookCalled 1 (Some 2)] \<and>
   snd (irrigConfigUpdated example_env example_settings 5 example_planner) =
     [CopyZonesAndEvents, HookCalled 1 (Some 2)]"
proof -
  let ?l = "example_planner\<lparr>configLock := True\<rparr>"
  have l: "configLock ?l" "configLock ?l \<and> 0 < (3::nat) \<and> \<not> configMutex ?l \<and> \<not> hookMutex ?l"
    by (simp_all add: example_planner_def)
  have f: "\<not> configLock example_planner \<and> \<not> configMutex example_planner \<and>
           \<not> hookMutex example_planner \<and> configUpdatedHook example_planner = Some 1"
    by (simp add: example_planner_def)
  have h: "configUpdatedHook ?l = Some 1" "configUpdatedHookParamPtr ?l = Some 2"
    "configUpdatedHookParamPtr example_planner = Some 2"
    by (simp_all add: example_planner_def)
  note A = config_update_deferred_once
    [of ?l example_env example_settings 5 3 example_settings 9 1]
  note B = config_update_deferred_once
    [of example_planner example_env example_settings 5 3 example_settings 9 1]
  from A l have a1: "irrigConfigUpdated example_env example_settings 5 ?l =
      (?l\<lparr>configUpdatedDuringLock := True\<rparr>, [])" by blast
  from A l have a2: "snd (setConfigLock example_env example_settings 9 False
          (((\<lambda>s. fst (irrigConfigUpdated example_env example_settings 5 s)) ^^ 3) ?l)) =
     CopyZonesAndEvents #
       (case configUpdatedHook ?l of None \<Rightarrow> []
        | Some hook \<Rightarrow> [HookCalled hook (configUpdatedHookParamPtr ?l)])"
    by simp
  from B f have b: "snd (irrigConfigUpdated example_env example_settings 5 example_planner) =
     [CopyZonesAndEvents, HookCalled 1 (configUpdatedHookParamPtr example_planner)]"
    by simp
  from a1 a2 b h show ?thesis by simp
qed

lemma irrigConfigUpdated_no_hook:
  assumes "configUpdatedHook p = None"
  shows "configUpdatedHook (fst (irrigConfigUpdated E sd now p)) = None \<and>
         (\<forall>e \<in> set (snd (irrigConfigUpdated E sd now p)). \<not> isHookCall e)"
  using assms by (auto simp: irrigConfigUpdated_def Let_def isHookCall_def split: if_splits)

lemma setConfigLock_no_hook:
  assumes "configUpdatedHook p = None"
  shows "configUpdatedHook (fst (setConfigLock E sd now b p)) = None \<and>
         (\<forall>e \<in> set (snd (setConfigLock E sd now b p)). \<not> isHookCall e)"
proof (cases "b = False \<and> configUpdatedDuringLock p")
  case True
  then have "setConfigLock E sd now b p =
      irrigConfigUpdated E sd now (p\<lparr>configLock := b, configUpdatedDuringLock := False\<rparr>)"
    by (simp add: setConfigLock_def)
  then show ?thesis
    using irrigConfigUpdated_no_hook [of "p\<lparr>configLock := b, configUpdatedDuringLock := False\<rparr>" E sd now] assms
    by simp
next
  case False
  then show ?thesis using assms by (auto simp: setConfigLock_def)
qed

lemma runReloadCalls_no_hook:
  "configUpdatedHook p = None \<Longrightarrow>
   configUpdatedHook (fst (runReloadCalls E cs p)) = None \<and>
   (\<forall>e \<in> set (snd (runReloadCalls E cs p)). \<not> isHookCall e)"
proof (induction cs arbitrary: p)
  case Nil
  then show ?case by simp
next
  case (Cons c cs)
  show ?case
  proof (cases c)
    case (Notify sd now)
    obtain p1 effs where s: "irrigConfigUpdated E sd now p = (p1, effs)"
      by (cases "irrigConfigUpdated E sd now p") auto
    with irrigConfigUpdated_no_hook [OF Cons.prems, of E sd now]
    have h: "configUpdatedHook p1 = None" and e: "\<forall>e \<in> set effs. \<not> isHookCall e" by auto
    from Cons.IH [OF h] e show ?thesis
      by (auto simp: Notify s split: prod.splits)
  next
    case (SetLock sd now b)
    obtain p1 effs where s: "setConfigLock E sd now b p = (p1, effs)"
      by (cases "setConfigLock E sd now b p") auto
    with setConfigLock_no_hook [OF Cons.prems, of E sd now b]
    have h: "configUpdatedHook p1 = None" and e: "\<forall>e \<in> set effs. \<not> isHookCall e" by auto
    from Cons.IH [OF h] e show ?thesis
      by (auto simp: SetLock s split: prod.splits)
  qed
qed

text \<open>
  C10. With the hook mutex free, \<^verbatim>\<open>registerIrrigPlanUpdatedHook\<close> accepts a null hook: it
  returns \<^verbatim>\<open>ERR_OK\<close> and replaces the stored pair. No sequence of notifications and lock
  changes after it calls a hook, and a reload with the lock and the config mutex free
  applies the configuration with the copy as its only effect.
\<close>

theorem register_null_hook_unregisters:
  assumes "\<not> hookMutex p"
  shows "fst (registerIrrigPlanUpdatedHook None param p) = ERR_OK \<and>
         snd (registerIrrigPlanUpdatedHook None param p) =
           p\<lparr>configUpdatedHook := None, configUpdatedHookParamPtr := param\<rparr> \<and>
         (\<forall>e \<in> set (snd (runReloadCalls E cs (snd (registerIrrigPlanUpdatedHook None param p)))).
             \<not> isHookCall e) \<and>
         (\<not> configLock p \<and> \<not> configMutex p \<longrightarrow>
            irrigConfigUpdated E sd now (snd (registerIrrigPlanUpdatedHook None param p)) =
              (printAllEvents E now (copyZonesAndEvents E sd
                 (p\<lparr>configUpdatedHook := None, configUpdatedHookParamPtr := param\<rparr>)),
               [CopyZonesAndEvents]))"
proof -
  let ?q = "p\<lparr>configUpdatedHook := None, configUpdatedHookParamPtr := param\<rparr>"
  have "?q\<lparr>hookMutex := False\<rparr> = ?q" using assms by simp
  then have r: "registerIrrigPlanUpdatedHook None param p = (ERR_OK, ?q)"
    using assms by (simp add: registerIrrigPlanUpdatedHook_def Let_def)
  have n: "configUpdatedHook ?q = None" by simp
  have a: "\<forall>e \<in> set (snd (runReloadCalls E cs ?q)). \<not> isHookCall e"
    using runReloadCalls_no_hook [OF n] by blast
  have b: "\<not> configLock p \<and> \<not> configMutex p \<longrightarrow>
      irrigConfigUpdated E sd now ?q = (printAllEvents E now (copyZonesAndEvents E sd ?q), [CopyZonesAndEvents])"
    using assms by (simp add: irrigConfigUpdated_applied)
  show ?thesis using a b by (simp add: r)
qed

theorem register_null_hook_unregisters_witness:
  "\<not> hookMutex example_planner \<and>
   fst (registerIrrigPlanUpdatedHook None None example_planner) = ERR_OK \<and>
   configUpdatedHook (snd (registerIrrigPlanUpdatedHook None None example_planner)) = None \<and>
   snd (irrigConfigUpdated example_env example_settings 5
          (snd (registerIrrigPlanUpdatedHook None None example_planner))) = [CopyZonesAndEvents]"
proof -
  have m: "\<not> hookMutex example_planner" by (simp add: example_planner_def)
  have f: "\<not> configLock example_planner \<and> \<not> configMutex example_planner"
    by (simp add: example_planner_def)
  note T = register_null_hook_unregisters [OF m, of None example_env "[]" example_settings 5]
  from T have r: "fst (registerIrrigPlanUpdatedHook None None example_planner) = ERR_OK"
    and q: "snd (registerIrrigPlanUpdatedHook None None example_planner) =
           example_planner\<lparr>configUpdatedHook := None, configUpdatedHookParamPtr := None\<rparr>"
    by blast+
  from T f have "irrigConfigUpdated example_env example_settings 5
        (snd (registerIrrigPlanUpdatedHook None None example_planner)) =
      (printAllEvents example_env 5 (copyZonesAndEvents example_env example_settings
         (example_planner\<lparr>configUpdatedHook := None, configUpdatedHookParamPtr := None\<rparr>)),
       [CopyZonesAndEvents])"
    by blast
  then have e: "snd (irrigConfigUpdated example_env example_settings 5
        (snd (registerIrrigPlanUpdatedHook None None example_planner))) = [CopyZonesAndEvents]"
    by simp
  have "configUpdatedHook (snd (registerIrrigPlanUpdatedHook None None example_planner)) = None"
    unfolding q by simp
  with m r e show ?thesis by blast
qed

section \<open>The invariant of the pools\<close>

text \<open>
  The invariant holds of a planner none of whose slots is in use, as the constructor
  leaves it, and each operation that changes the pools restores it: a scan updates the
  used slots, a reload copies the reconfigurable start events and updates every used
  start slot, and a confirmation writes the stop slot it takes in full.
\<close>

lemma planner_inv_unused:
  assumes "planner_wf E p"
    and "\<forall>i < irrigationPlannerNumEvents E. \<not> IrrigationPlanner.eventsUsed p ! i"
    and "\<forall>i < irrigationPlannerNumStopEvents E. \<not> stopEventsUsed p ! i"
  shows "planner_inv E p"
  using assms by (simp add: planner_inv_def)


























end
